theory Spec2Isabelle
  imports Complex_Main
begin

section \<open>Numbers, option objects and configuration\<close>

text \<open>
  JavaScript numbers are modelled as reals (rounding and overflow are not modelled).
  The one place of \<^verbatim>\<open>particles.js\<close> where finite operands give a non-finite result is
  the division by \<^verbatim>\<open>this.maxLife\<close> in \<^verbatim>\<open>Particle.update\<close>; the value of \<^verbatim>\<open>this.life\<close>
  is therefore a \<open>jsnum\<close>. A zero divisor is taken to be \<^verbatim>\<open>+0\<close>.
\<close>

datatype jsnum = Num real | PosInf | NegInf | NaN

definition js_div :: "real \<Rightarrow> real \<Rightarrow> jsnum" where
  "js_div a b =
     (if b \<noteq> 0 then Num (a / b)
      else if 0 < a then PosInf
      else if a < 0 then NegInf
      else NaN)"

fun one_minus :: "jsnum \<Rightarrow> jsnum" where
  "one_minus (Num r) = Num (1 - r)"
| "one_minus PosInf = NegInf"
| "one_minus NegInf = PosInf"
| "one_minus NaN = NaN"

text \<open>\<^verbatim>\<open>q <= 0\<close>: every comparison with NaN is false.\<close>

fun le_zero :: "jsnum \<Rightarrow> bool" where
  "le_zero (Num r) = (r \<le> 0)"
| "le_zero NegInf = True"
| "le_zero PosInf = False"
| "le_zero NaN = False"

text \<open>\<^verbatim>\<open>p <= q\<close> on JavaScript numbers.\<close>

fun js_le :: "jsnum \<Rightarrow> jsnum \<Rightarrow> bool" where
  "js_le NaN _ = False"
| "js_le _ NaN = False"
| "js_le NegInf _ = True"
| "js_le _ PosInf = True"
| "js_le (Num a) (Num b) = (a \<le> b)"
| "js_le (Num a) NegInf = False"
| "js_le PosInf (Num b) = False"
| "js_le PosInf NegInf = False"

text \<open>
  A property of an options object: the key is absent, present with value
  \<^verbatim>\<open>undefined\<close>/\<^verbatim>\<open>null\<close>, or present with a value. The operator \<^verbatim>\<open>??\<close> treats the
  first two alike; the spread \<^verbatim>\<open>{k: d, ...options}\<close> does not: a present key overrides
  \<open>d\<close> whatever its value.
\<close>

datatype 'a field = Absent | Nullish | Val 'a

record options =
  o_angle :: "real field"
  o_speed :: "real field"
  o_size :: "real field"
  o_color :: "string field"
  o_lifetime :: "real field"

definition no_options :: options where
  "no_options = \<lparr>o_angle = Absent, o_speed = Absent, o_size = Absent,
                  o_color = Absent, o_lifetime = Absent\<rparr>"

definition over :: "'a field \<Rightarrow> 'a field \<Rightarrow> 'a field" where
  "over d v = (case v of Absent \<Rightarrow> d | _ \<Rightarrow> v)"

text \<open>\<^verbatim>\<open>{...d, ...options}\<close>\<close>

definition spread :: "options \<Rightarrow> options \<Rightarrow> options" where
  "spread d opts =
     \<lparr>o_angle = over (o_angle d) (o_angle opts),
      o_speed = over (o_speed d) (o_speed opts),
      o_size = over (o_size d) (o_size opts),
      o_color = over (o_color d) (o_color opts),
      o_lifetime = over (o_lifetime d) (o_lifetime opts)\<rparr>"

record range =
  rmin :: real
  rmax :: real

record mobile_config =
  m_maxParticles :: nat
  m_lifetime :: real
  spawnRate :: real

record config =
  maxParticles :: nat
  poolSize :: nat
  lifetime :: real
  speed :: range
  sizes :: range
  colors :: "string list"
  gravity :: real
  friction :: real
  fadeOut :: bool
  mobile :: mobile_config

definition PARTICLE_CONFIG :: config where
  "PARTICLE_CONFIG =
     \<lparr>maxParticles = 200, poolSize = 300, lifetime = 2000,
      speed = \<lparr>rmin = 1, rmax = 4\<rparr>,
      sizes = \<lparr>rmin = 4, rmax = 10\<rparr>,
      colors = [''#4A90E2'', ''#2ECC71'', ''#A8E6CF'', ''#FF7F50'', ''#FF6B9D''],
      gravity = 5 / 100, friction = 98 / 100, fadeOut = True,
      mobile = \<lparr>m_maxParticles = 100, m_lifetime = 1500, spawnRate = 1 / 2\<rparr>\<rparr>"

text \<open>
  \<^verbatim>\<open>Object.assign(PARTICLE_CONFIG, PARTICLE_CONFIG.mobile)\<close>: the top-level
  \<^verbatim>\<open>maxParticles\<close> and \<^verbatim>\<open>lifetime\<close> are overwritten (the copied top-level
  \<^verbatim>\<open>spawnRate\<close> is read nowhere; the spawn operations read \<^verbatim>\<open>mobile.spawnRate\<close>).
\<close>

definition apply_mobile :: "config \<Rightarrow> config" where
  "apply_mobile c =
     c\<lparr>maxParticles := m_maxParticles (mobile c), lifetime := m_lifetime (mobile c)\<rparr>"

text \<open>
  The environment of a call: the configuration as it stands after start-up, the flag
  \<^verbatim>\<open>IS_MOBILE_DEVICE\<close>, and the values \<^verbatim>\<open>Math.random()\<close> returns, in order.
  The wall clock is an argument \<open>now\<close> of every operation that reads \<^verbatim>\<open>Date.now()\<close>: the
  operations are synchronous, and all the reads of one call are taken to return the same
  millisecond.
\<close>

record env =
  cfg :: config
  IS_MOBILE_DEVICE :: bool
  rand :: "nat \<Rightarrow> real"

definition startup_env :: "bool \<Rightarrow> (nat \<Rightarrow> real) \<Rightarrow> env" where
  "startup_env m r =
     \<lparr>cfg = (if m then apply_mobile PARTICLE_CONFIG else PARTICLE_CONFIG),
      IS_MOBILE_DEVICE = m, rand = r\<rparr>"

section \<open>Particle\<close>

record particle =
  active :: bool
  px :: real
  py :: real
  vx :: real
  vy :: real
  psize :: real
  color :: "string option"
  life :: jsnum
  maxLife :: real
  birthTime :: real
  rotation :: real
  rotationSpeed :: real

definition Particle_reset :: "config \<Rightarrow> particle \<Rightarrow> particle" where
  "Particle_reset c p =
     p\<lparr>active := False, px := 0, py := 0, vx := 0, vy := 0, psize := 5,
       color := Some ''#4A90E2'', life := Num 1, maxLife := lifetime c,
       birthTime := 0, rotation := 0, rotationSpeed := 0\<rparr>"

text \<open>\<^verbatim>\<open>new Particle()\<close>: the constructor only calls \<^verbatim>\<open>reset\<close>, which creates every field.\<close>

definition Particle_new :: "config \<Rightarrow> particle" where
  "Particle_new c =
     \<lparr>active = False, px = 0, py = 0, vx = 0, vy = 0, psize = 5,
      color = Some ''#4A90E2'', life = Num 1, maxLife = lifetime c,
      birthTime = 0, rotation = 0, rotationSpeed = 0\<rparr>"

text \<open>
  \<^verbatim>\<open>v ?? f(Math.random())\<close>: the random number is drawn only when \<open>v\<close> is nullish.
  The second component counts the calls of \<^verbatim>\<open>Math.random()\<close> made so far.
\<close>

definition or_draw :: "env \<Rightarrow> 'a field \<Rightarrow> (real \<Rightarrow> 'a) \<Rightarrow> nat \<Rightarrow> 'a \<times> nat" where
  "or_draw e v f n = (case v of Val a \<Rightarrow> (a, n) | _ \<Rightarrow> (f (rand e n), Suc n))"

text \<open>\<^verbatim>\<open>xs[k]\<close> for an integral \<open>k\<close>: \<^verbatim>\<open>undefined\<close> outside the array.\<close>

definition js_index :: "'a list \<Rightarrow> int \<Rightarrow> 'a option" where
  "js_index xs k = (if 0 \<le> k \<and> k < int (length xs) then Some (xs ! nat k) else None)"

definition Particle_spawn ::
  "env \<Rightarrow> real \<Rightarrow> real \<Rightarrow> real \<Rightarrow> options \<Rightarrow> particle \<times> nat \<Rightarrow> particle \<times> nat" where
  "Particle_spawn e now x y opts pn =
     (let (p, n0) = pn;
          (angle, n1) = or_draw e (o_angle opts) (\<lambda>r. r * pi * 2) n0;
          (spd, n2) = or_draw e (o_speed opts)
             (\<lambda>r. r * (rmax (speed (cfg e)) - rmin (speed (cfg e))) + rmin (speed (cfg e))) n1;
          (sz, n3) = or_draw e (o_size opts)
             (\<lambda>r. r * (rmax (sizes (cfg e)) - rmin (sizes (cfg e))) + rmin (sizes (cfg e))) n2;
          (col, n4) = or_draw e (map_field Some (o_color opts))
             (\<lambda>r. js_index (colors (cfg e)) \<lfloor>r * real (length (colors (cfg e)))\<rfloor>) n3;
          ml = (case o_lifetime opts of Val l \<Rightarrow> l | _ \<Rightarrow> lifetime (cfg e))
      in (p\<lparr>active := True, px := x, py := y,
            vx := cos angle * spd, vy := sin angle * spd,
            psize := sz, color := col,
            life := Num 1, maxLife := ml, birthTime := now,
            rotation := rand e n4 * pi * 2,
            rotationSpeed := (rand e (Suc n4) - 1 / 2) * (1 / 10)\<rparr>,
          Suc (Suc n4)))"

text \<open>
  \<^verbatim>\<open>update(deltaTime)\<close>; \<open>now\<close> is the value of \<^verbatim>\<open>Date.now()\<close>. The argument is a
  \<open>jsnum\<close>: the first frame passes \<^verbatim>\<open>undefined - this.lastTime\<close>, which is NaN.
\<close>

definition Particle_update :: "config \<Rightarrow> real \<Rightarrow> jsnum \<Rightarrow> particle \<Rightarrow> particle" where
  "Particle_update c now deltaTime p =
     (if \<not> active p then p
      else
        let vy1 = vy p + gravity c;
            vx2 = vx p * friction c;
            vy2 = vy1 * friction c;
            age = now - birthTime p;
            lf = one_minus (js_div age (maxLife p));
            p' = p\<lparr>vx := vx2, vy := vy2, px := px p + vx2, py := py p + vy2,
                   rotation := rotation p + rotationSpeed p, life := lf\<rparr>
        in if le_zero lf then p'\<lparr>active := False\<rparr> else p')"

section \<open>ParticlePool\<close>

text \<open>
  Particles are objects with identity: the pool's two arrays hold references. The heap is
  the list of all particle objects created so far, a reference is an index into it.
  \<open>pool\<close> is \<^verbatim>\<open>this.pool\<close> (the free list, a stack whose top is the last element),
  \<open>active_list\<close> is \<^verbatim>\<open>this.active\<close>; \<open>drawn\<close> counts the calls of
  \<^verbatim>\<open>Math.random()\<close>.
\<close>

record world =
  heap :: "particle list"
  pool :: "nat list"
  active_list :: "nat list"
  drawn :: nat

definition ParticlePool_new :: "config \<Rightarrow> nat \<Rightarrow> world" where
  "ParticlePool_new c n =
     \<lparr>heap = replicate n (Particle_new c), pool = [0..<n], active_list = [], drawn = 0\<rparr>"

definition get :: "config \<Rightarrow> world \<Rightarrow> nat \<times> world" where
  "get c w =
     (if pool w = []
      then (length (heap w),
            w\<lparr>heap := heap w @ [Particle_new c],
              active_list := active_list w @ [length (heap w)]\<rparr>)
      else (last (pool w),
            w\<lparr>pool := butlast (pool w),
              active_list := active_list w @ [last (pool w)]\<rparr>))"

definition release :: "config \<Rightarrow> nat \<Rightarrow> world \<Rightarrow> world" where
  "release c a w =
     (let w1 = w\<lparr>heap := (heap w)[a := Particle_reset c (heap w ! a)]\<rparr>;
          w2 = w1\<lparr>active_list := remove1 a (active_list w1)\<rparr>
      in if length (pool w2) < poolSize c then w2\<lparr>pool := pool w2 @ [a]\<rparr> else w2)"

definition getActiveCount :: "world \<Rightarrow> nat" where
  "getActiveCount w = length (active_list w)"

text \<open>
  \<^verbatim>\<open>this.active.forEach(particle => this.release(particle))\<close>: \<^verbatim>\<open>forEach\<close> reads the
  length once, then visits the indices \<open>0, 1, ...\<close> below it in turn, and calls the
  callback at an index only if the array (as it is by then) still has it.
\<close>

definition clear_step :: "config \<Rightarrow> nat \<Rightarrow> world \<Rightarrow> world" where
  "clear_step c k w =
     (if k < length (active_list w) then release c (active_list w ! k) w else w)"

definition clear :: "config \<Rightarrow> world \<Rightarrow> world" where
  "clear c w = fold (clear_step c) [0..<length (active_list w)] w"

text \<open>
  \<^verbatim>\<open>ParticlePool.update\<close>: the index runs from \<^verbatim>\<open>this.active.length - 1\<close> down to 0;
  \<open>update_loop \<dots> (Suc i)\<close> is the iteration at index \<open>i\<close>. Reading beyond the array gives
  \<^verbatim>\<open>undefined\<close>, on which \<^verbatim>\<open>particle.update\<close> throws a TypeError: the result \<open>None\<close>.
\<close>

primrec update_loop :: "config \<Rightarrow> real \<Rightarrow> jsnum \<Rightarrow> nat \<Rightarrow> world \<Rightarrow> world option" where
  "update_loop c now dt 0 w = Some w"
| "update_loop c now dt (Suc i) w =
     (if i < length (active_list w) then
        let a = active_list w ! i;
            w1 = w\<lparr>heap := (heap w)[a := Particle_update c now dt (heap w ! a)]\<rparr>;
            w2 = (if \<not> active (heap w1 ! a) then release c a w1 else w1)
        in update_loop c now dt i w2
      else None)"

definition ParticlePool_update :: "config \<Rightarrow> real \<Rightarrow> jsnum \<Rightarrow> world \<Rightarrow> world option" where
  "ParticlePool_update c now dt w = update_loop c now dt (length (active_list w)) w"

text \<open>\<^verbatim>\<open>Math.random()\<close>\<close>

definition Math_random :: "env \<Rightarrow> world \<Rightarrow> real \<times> world" where
  "Math_random e w = (rand e (drawn w), w\<lparr>drawn := Suc (drawn w)\<rparr>)"

text \<open>\<^verbatim>\<open>particle.spawn(x, y, opts)\<close> on the object at reference \<open>a\<close>.\<close>

definition spawn_at ::
  "env \<Rightarrow> real \<Rightarrow> real \<Rightarrow> real \<Rightarrow> options \<Rightarrow> nat \<Rightarrow> world \<Rightarrow> world" where
  "spawn_at e now x y opts a w =
     (let (p', n') = Particle_spawn e now x y opts (heap w ! a, drawn w)
      in w\<lparr>heap := (heap w)[a := p'], drawn := n'\<rparr>)"

section \<open>ParticleEngine: the spawn operations\<close>

text \<open>
  \<^verbatim>\<open>for (let i = 0; i < count; i++) body\<close> with a numeric \<open>count\<close>;
  \<open>for_loop body i count s\<close> is the loop from the index \<open>i\<close> on.
\<close>

function for_loop :: "(nat \<Rightarrow> 's \<Rightarrow> 's) \<Rightarrow> nat \<Rightarrow> real \<Rightarrow> 's \<Rightarrow> 's" where
  "for_loop body i count s =
     (if real i < count then for_loop body (Suc i) count (body i s) else s)"
  by pat_completeness auto
termination
proof (relation "measure (\<lambda>(body, i, count, s). nat \<lceil>count\<rceil> - i)")
  show "wf (measure (\<lambda>(body :: nat \<Rightarrow> 's \<Rightarrow> 's, i, count, s :: 's). nat \<lceil>count\<rceil> - i))"
    by simp
next
  fix body :: "nat \<Rightarrow> 's \<Rightarrow> 's" and i :: nat and count :: real and s :: 's
  assume "real i < count"
  then have "int i < \<lceil>count\<rceil>"
    by (simp add: less_ceiling_iff)
  then have "i < nat \<lceil>count\<rceil>"
    by simp
  then show "((body, Suc i, count, body i s), (body, i, count, s))
        \<in> measure (\<lambda>(body, i, count, s). nat \<lceil>count\<rceil> - i)"
    by simp
qed

declare for_loop.simps [simp del]

text \<open>The count after the block \<^verbatim>\<open>if (IS_MOBILE_DEVICE) { count = Math.ceil(...) }\<close>.\<close>

definition mobile_count :: "env \<Rightarrow> real \<Rightarrow> real" where
  "mobile_count e count =
     (if IS_MOBILE_DEVICE e then of_int \<lceil>count * spawnRate (mobile (cfg e))\<rceil> else count)"

definition burst_body ::
  "env \<Rightarrow> real \<Rightarrow> real \<Rightarrow> real \<Rightarrow> real \<Rightarrow> options \<Rightarrow> nat \<Rightarrow> world \<Rightarrow> world" where
  "burst_body e now x y count opts i w =
     (let angle = (pi * 2 * real i) / count;
          (a, w1) = get (cfg e) w
      in spawn_at e now x y (spread (no_options\<lparr>o_angle := Val angle\<rparr>) opts) a w1)"

definition spawnBurst ::
  "env \<Rightarrow> real \<Rightarrow> real \<Rightarrow> real \<Rightarrow> real \<Rightarrow> options \<Rightarrow> world \<Rightarrow> world" where
  "spawnBurst e now x y count opts w =
     (if maxParticles (cfg e) \<le> getActiveCount w then w
      else let count1 = mobile_count e count
           in for_loop (burst_body e now x y count1 opts) 0 count1 w)"

definition explosion_body ::
  "env \<Rightarrow> real \<Rightarrow> real \<Rightarrow> real \<Rightarrow> options \<Rightarrow> nat \<Rightarrow> world \<Rightarrow> world" where
  "explosion_body e now x y opts i w =
     (let (a, w1) = get (cfg e) w;
          (r1, w2) = Math_random e w1;
          (r2, w3) = Math_random e w2
      in spawn_at e now x y
           (spread (no_options\<lparr>o_angle := Val (r1 * pi * 2), o_speed := Val (r2 * 6 + 2)\<rparr>) opts)
           a w3)"

definition spawnExplosion ::
  "env \<Rightarrow> real \<Rightarrow> real \<Rightarrow> real \<Rightarrow> real \<Rightarrow> options \<Rightarrow> world \<Rightarrow> world" where
  "spawnExplosion e now x y count opts w =
     (if maxParticles (cfg e) \<le> getActiveCount w then w
      else for_loop (explosion_body e now x y opts) 0 (mobile_count e count) w)"

definition fountain_body ::
  "env \<Rightarrow> real \<Rightarrow> real \<Rightarrow> real \<Rightarrow> options \<Rightarrow> nat \<Rightarrow> world \<Rightarrow> world" where
  "fountain_body e now x y opts i w =
     (let (a, w1) = get (cfg e) w;
          spread_angle = 1 / 2;
          (r1, w2) = Math_random e w1;
          angle = - pi / 2 + (r1 - 1 / 2) * spread_angle;
          (r2, w3) = Math_random e w2
      in spawn_at e now x y
           (spread (no_options\<lparr>o_angle := Val angle, o_speed := Val (r2 * 5 + 3)\<rparr>) opts)
           a w3)"

definition spawnFountain ::
  "env \<Rightarrow> real \<Rightarrow> real \<Rightarrow> real \<Rightarrow> real \<Rightarrow> options \<Rightarrow> world \<Rightarrow> world" where
  "spawnFountain e now x y count opts w =
     (if maxParticles (cfg e) \<le> getActiveCount w then w
      else for_loop (fountain_body e now x y opts) 0 (mobile_count e count) w)"

definition trail_body ::
  "env \<Rightarrow> real \<Rightarrow> real \<Rightarrow> real \<Rightarrow> options \<Rightarrow> nat \<Rightarrow> world \<Rightarrow> world" where
  "trail_body e now x y opts i w =
     (let (a, w1) = get (cfg e) w;
          (r1, w2) = Math_random e w1;
          (r2, w3) = Math_random e w2;
          (r3, w4) = Math_random e w3
      in spawn_at e now x y
           (spread (no_options\<lparr>o_angle := Val (r1 * pi * 2), o_speed := Val (r2 * 2),
                                o_size := Val (r3 * 4 + 2), o_lifetime := Val 1000\<rparr>) opts)
           a w4)"

text \<open>\<^verbatim>\<open>spawnTrail(x, y, count = 3, options = {})\<close>: \<open>None\<close> is an omitted count.\<close>

definition spawnTrail ::
  "env \<Rightarrow> real \<Rightarrow> real \<Rightarrow> real \<Rightarrow> real option \<Rightarrow> options \<Rightarrow> world \<Rightarrow> world" where
  "spawnTrail e now x y count opts w =
     (if maxParticles (cfg e) \<le> getActiveCount w then w
      else for_loop (trail_body e now x y opts) 0 (case count of None \<Rightarrow> 3 | Some n \<Rightarrow> n) w)"

text \<open>A call of one of the four spawn operations, and a sequence of such calls, each at its time.\<close>

datatype spawn_op =
    Burst real real real options
  | Explosion real real real options
  | Fountain real real real options
  | Trail real real "real option" options

fun run_op :: "env \<Rightarrow> real \<times> spawn_op \<Rightarrow> world \<Rightarrow> world" where
  "run_op e (now, Burst x y n opts) w = spawnBurst e now x y n opts w"
| "run_op e (now, Explosion x y n opts) w = spawnExplosion e now x y n opts w"
| "run_op e (now, Fountain x y n opts) w = spawnFountain e now x y n opts w"
| "run_op e (now, Trail x y n opts) w = spawnTrail e now x y n opts w"

definition run_ops :: "env \<Rightarrow> (real \<times> spawn_op) list \<Rightarrow> world \<Rightarrow> world" where
  "run_ops e ops w = fold (run_op e) ops w"

text \<open>The number of particles a call asks for once it has passed the budget check.\<close>

fun requested :: "env \<Rightarrow> spawn_op \<Rightarrow> nat" where
  "requested e (Burst x y n opts) = nat \<lceil>mobile_count e n\<rceil>"
| "requested e (Explosion x y n opts) = nat \<lceil>mobile_count e n\<rceil>"
| "requested e (Fountain x y n opts) = nat \<lceil>mobile_count e n\<rceil>"
| "requested e (Trail x y n opts) = nat \<lceil>case n of None \<Rightarrow> 3 | Some n \<Rightarrow> n\<rceil>"

section \<open>ParticleEngine: initialisation\<close>

text \<open>
  What the browser answers during \<^verbatim>\<open>init\<close>: whether \<^verbatim>\<open>canvas.getContext('2d', ...)\<close>
  returns a context (it returns \<^verbatim>\<open>null\<close> otherwise) and the handle
  \<^verbatim>\<open>requestAnimationFrame\<close> returns. Of the engine's fields, the frame clock and the FPS
  counters (\<^verbatim>\<open>lastTime\<close>, \<^verbatim>\<open>fps\<close>, \<^verbatim>\<open>frameCount\<close>, \<^verbatim>\<open>fpsUpdateTime\<close>) and the cached
  \<^verbatim>\<open>width\<close>/\<^verbatim>\<open>height\<close> are left out: they are written, and read only for drawing and
  statistics. A method either returns a value or throws a TypeError (a property read on
  \<^verbatim>\<open>null\<close>).
\<close>

record host =
  context2d :: bool
  raf_id :: nat

record engine =
  canvas :: bool
  ctx :: bool
  pool_obj :: "world option"
  animationId :: "nat option"

datatype 'a outcome = Returned 'a | TypeError

definition ParticleEngine_new :: engine where
  "ParticleEngine_new = \<lparr>canvas = False, ctx = False, pool_obj = None, animationId = None\<rparr>"

text \<open>\<^verbatim>\<open>resize()\<close>: \<^verbatim>\<open>this.ctx.scale(dpr, dpr)\<close> throws when \<^verbatim>\<open>this.ctx\<close> is null.\<close>

definition resize :: "engine \<Rightarrow> unit outcome \<times> engine" where
  "resize g = (if ctx g then (Returned (), g) else (TypeError, g))"

text \<open>
  \<^verbatim>\<open>animate(currentTime)\<close> as \<^verbatim>\<open>start()\<close> calls it, without an argument: the frame is
  requested, the surface is cleared, the pool is updated with the NaN delta, and drawn
  (drawing changes no modelled state).
\<close>

definition animate :: "host \<Rightarrow> config \<Rightarrow> real \<Rightarrow> engine \<Rightarrow> unit outcome \<times> engine" where
  "animate h c now g =
     (let g1 = g\<lparr>animationId := Some (raf_id h)\<rparr>
      in if \<not> ctx g1 then (TypeError, g1)
         else case pool_obj g1 of
                None \<Rightarrow> (TypeError, g1)
              | Some w \<Rightarrow>
                  (case ParticlePool_update c now NaN w of
                     None \<Rightarrow> (TypeError, g1)
                   | Some w' \<Rightarrow> (Returned (), g1\<lparr>pool_obj := Some w'\<rparr>)))"

definition start :: "host \<Rightarrow> config \<Rightarrow> real \<Rightarrow> engine \<Rightarrow> unit outcome \<times> engine" where
  "start h c now g = (if animationId g \<noteq> None then (Returned (), g) else animate h c now g)"

definition init :: "host \<Rightarrow> config \<Rightarrow> real \<Rightarrow> engine \<Rightarrow> bool outcome \<times> engine" where
  "init h c now g =
     (let g1 = g\<lparr>canvas := True\<rparr>;
          g2 = g1\<lparr>ctx := context2d h\<rparr>
      in case resize g2 of
           (TypeError, g3) \<Rightarrow> (TypeError, g3)
         | (Returned _, g3) \<Rightarrow>
             (let g4 = g3\<lparr>pool_obj := Some (ParticlePool_new c (poolSize c))\<rparr>
              in case start h c now g4 of
                   (TypeError, g5) \<Rightarrow> (TypeError, g5)
                 | (Returned _, g5) \<Rightarrow> (Returned True, g5)))"

text \<open>
  A spawn method called on the engine object: each begins with
  \<^verbatim>\<open>this.pool.getActiveCount()\<close>, which throws while \<^verbatim>\<open>this.pool\<close> is null.
\<close>

definition engine_spawn :: "env \<Rightarrow> real \<times> spawn_op \<Rightarrow> engine \<Rightarrow> unit outcome \<times> engine" where
  "engine_spawn e op g =
     (case pool_obj g of
        None \<Rightarrow> (TypeError, g)
      | Some w \<Rightarrow> (Returned (), g\<lparr>pool_obj := Some (run_op e op w)\<rparr>))"

section \<open>Invariant and scenarios\<close>

text \<open>
  The pool's representation invariant: no reference occurs twice in the two arrays taken
  together, and every reference is an object of the heap.
\<close>

definition pool_inv :: "world \<Rightarrow> bool" where
  "pool_inv w \<longleftrightarrow> distinct (pool w @ active_list w) \<and>
            list_all (\<lambda>a. a < length (heap w)) (pool w @ active_list w)"

text \<open>\<open>n\<close> calls of \<^verbatim>\<open>get()\<close> in a row; the references returned, in order.\<close>

primrec acquire_n :: "config \<Rightarrow> nat \<Rightarrow> world \<Rightarrow> nat list \<times> world" where
  "acquire_n c 0 w = ([], w)"
| "acquire_n c (Suc n) w =
     (let (a, w1) = get c w; (as, w2) = acquire_n c n w1 in (a # as, w2))"

text \<open>\<^verbatim>\<open>release\<close> called on each of the given particles in turn.\<close>

definition release_all :: "config \<Rightarrow> nat list \<Rightarrow> world \<Rightarrow> world" where
  "release_all c as w = fold (release c) as w"

text \<open>
  The number of particles acquired by a sequence of spawn calls that starts with \<open>k\<close>
  live particles: a call made at or above the budget acquires nothing, any other call
  acquires all it asks for.
\<close>

fun acquired :: "env \<Rightarrow> spawn_op list \<Rightarrow> nat \<Rightarrow> nat" where
  "acquired e [] k = k"
| "acquired e (op # ops) k =
     acquired e ops (if maxParticles (cfg e) \<le> k then k else k + requested e op)"

text \<open>The number of \<^verbatim>\<open>Math.random()\<close> calls of one \<^verbatim>\<open>spawn\<close> with the given options.\<close>

definition draws :: "options \<Rightarrow> nat" where
  "draws opts =
     (case o_angle opts of Val _ \<Rightarrow> 0 | _ \<Rightarrow> 1) + (case o_speed opts of Val _ \<Rightarrow> 0 | _ \<Rightarrow> 1) +
     (case o_size opts of Val _ \<Rightarrow> 0 | _ \<Rightarrow> 1) + (case o_color opts of Val _ \<Rightarrow> 0 | _ \<Rightarrow> 1) + 2"

text \<open>
  What holds of the live set between calls: the invariant, and every live particle is
  flagged active.
\<close>

definition live_inv :: "world \<Rightarrow> bool" where
  "live_inv w \<longleftrightarrow> pool_inv w \<and> list_all (\<lambda>a. active (heap w ! a)) (active_list w)"

text \<open>A source of random numbers that always returns the same value.\<close>

definition fixed_random :: "real \<Rightarrow> nat \<Rightarrow> real" where
  "fixed_random r n = r"

text \<open>
  The scenario of releasing a particle and acquiring and spawning one straight away:
  \<^verbatim>\<open>pool.release(p); q = pool.get(); q.spawn(x, y, opts)\<close>. The result is the reference
  \<^verbatim>\<open>get\<close> returned and the world after the spawn.
\<close>

definition respawn ::
  "env \<Rightarrow> real \<Rightarrow> real \<Rightarrow> real \<Rightarrow> options \<Rightarrow> nat \<Rightarrow> world \<Rightarrow> nat \<times> world" where
  "respawn e now x y opts a w =
     (let w1 = release (cfg e) a w;
          (b, w2) = get (cfg e) w1
      in (b, spawn_at e now x y opts b w2))"

text \<open>
  A live particle whose lifetime (a non-negative duration) has run out on the wall clock:
  \<open>now\<close> is later than the spawn time plus \<open>maxLife\<close>.
\<close>

definition expired :: "real \<Rightarrow> particle \<Rightarrow> bool" where
  "expired now p \<longleftrightarrow> active p \<and> 0 \<le> maxLife p \<and> birthTime p + maxLife p < now"

text \<open>
  The desktop profile with a random source that always returns \<open>1/2\<close>, and the world after
  the engine's pool has handed out one particle that was spawned at time 0 with the
  explicit colour \<^verbatim>\<open>#FF0000\<close>.
\<close>

definition desktop :: env where
  "desktop = startup_env False (fixed_random (1 / 2))"

definition red_particle_world :: world where
  "red_particle_world =
     (let (a, w) = get PARTICLE_CONFIG (ParticlePool_new PARTICLE_CONFIG 300)
      in spawn_at desktop 0 10 10 (no_options\<lparr>o_color := Val ''#FF0000''\<rparr>) a w)"

text \<open>
  The speed \<^verbatim>\<open>spawn\<close> launches a particle with when \<open>n\<close> random numbers have been drawn
  before the speed is chosen: the override, or the next random number scaled into the
  configured range. A particle is launched at the angle \<open>th\<close> when it is active and its
  velocity is that speed along \<open>(cos th, sin th)\<close>.
\<close>

definition launch_speed :: "env \<Rightarrow> options \<Rightarrow> nat \<Rightarrow> real" where
  "launch_speed e opts n =
     (case o_speed opts of
        Val v \<Rightarrow> v
      | _ \<Rightarrow> rand e n * (rmax (speed (cfg e)) - rmin (speed (cfg e))) + rmin (speed (cfg e)))"

definition launched :: "env \<Rightarrow> options \<Rightarrow> real \<Rightarrow> nat \<Rightarrow> particle \<Rightarrow> bool" where
  "launched e opts th n p \<longleftrightarrow>
     active p \<and> vx p = cos th * launch_speed e opts n \<and> vy p = sin th * launch_speed e opts n"

text \<open>The elements at the odd positions \<open>1, 3, 5, \<dots>\<close> of a list.\<close>

fun every_other :: "'a list \<Rightarrow> 'a list" where
  "every_other [] = []"
| "every_other [x] = []"
| "every_other (x # y # zs) = y # every_other zs"

section \<open>Loops, acquisition and the invariant\<close>

lemma for_loop_fold: "for_loop body i c s = fold body [i..<nat \<lceil>c\<rceil>] s"
proof (induction body i c s rule: for_loop.induct)
  case (1 body i count s)
  show ?case
  proof (cases "real i < count")
    case True
    then have "int i < \<lceil>count\<rceil>" by (simp add: less_ceiling_iff)
    then have lt: "i < nat \<lceil>count\<rceil>" by simp
    have "for_loop body i count s = for_loop body (Suc i) count (body i s)"
      using True by (simp add: for_loop.simps [of body i])
    also have "\<dots> = fold body [Suc i..<nat \<lceil>count\<rceil>] (body i s)"
      using 1 True by simp
    also have "\<dots> = fold body [i..<nat \<lceil>count\<rceil>] s"
      using lt by (simp add: upt_conv_Cons)
    finally show ?thesis .
  next
    case False
    then have "\<lceil>count\<rceil> \<le> int i" by (simp add: ceiling_le_iff)
    then have "nat \<lceil>count\<rceil> \<le> i" by linarith
    then have a: "[i..<nat \<lceil>count\<rceil>] = []" by simp
    have b: "for_loop body i count s = s"
      using False by (simp add: for_loop.simps [of body i])
    show ?thesis unfolding a b by simp
  qed
qed

lemma Particle_reset_new: "Particle_reset c p = Particle_new c"
  by (simp add: Particle_reset_def Particle_new_def)

lemma get_active: "active_list (snd (get c w)) = active_list w @ [fst (get c w)]"
  by (simp add: get_def)

lemma spawn_at_lists [simp]:
  "pool (spawn_at e now x y opts a w) = pool w"
  "active_list (spawn_at e now x y opts a w) = active_list w"
  "length (heap (spawn_at e now x y opts a w)) = length (heap w)"
  by (simp_all add: spawn_at_def split: prod.splits)

lemma Math_random_lists [simp]:
  "pool (snd (Math_random e w)) = pool w"
  "active_list (snd (Math_random e w)) = active_list w"
  "heap (snd (Math_random e w)) = heap w"
  by (simp_all add: Math_random_def)

lemma body_count:
  "getActiveCount (burst_body e now x y n opts i w) = Suc (getActiveCount w)"
  "getActiveCount (explosion_body e now x y opts i w) = Suc (getActiveCount w)"
  "getActiveCount (fountain_body e now x y opts i w) = Suc (getActiveCount w)"
  "getActiveCount (trail_body e now x y opts i w) = Suc (getActiveCount w)"
  by (simp_all add: burst_body_def explosion_body_def fountain_body_def trail_body_def
      getActiveCount_def get_def Math_random_def split: prod.splits)

lemma fold_count:
  assumes "\<And>i w. getActiveCount (body i w) = Suc (getActiveCount w)"
  shows "getActiveCount (fold body xs w) = getActiveCount w + length xs"
  using assms by (induction xs arbitrary: w) simp_all

lemma get_spec:
  assumes "pool_inv w"
  shows "fst (get c w) \<notin> set (active_list w)"
    and "active_list (snd (get c w)) = active_list w @ [fst (get c w)]"
    and "pool_inv (snd (get c w))"
    and "fst (get c w) < length (heap (snd (get c w)))"
    and "b < length (heap w) \<Longrightarrow> heap (snd (get c w)) ! b = heap w ! b"
    and "drawn (snd (get c w)) = drawn w"
    and "length (heap w) \<le> length (heap (snd (get c w)))"
proof -
  show "active_list (snd (get c w)) = active_list w @ [fst (get c w)]"
    by (simp add: get_def)
  show "drawn (snd (get c w)) = drawn w"
    by (simp add: get_def)
  show "length (heap w) \<le> length (heap (snd (get c w)))"
    by (simp add: get_def)
  show "b < length (heap w) \<Longrightarrow> heap (snd (get c w)) ! b = heap w ! b"
    by (simp add: get_def nth_append)
  show "fst (get c w) \<notin> set (active_list w)"
  proof (cases "pool w = []")
    case True
    then show ?thesis using assms by (auto simp: get_def pool_inv_def list_all_iff)
  next
    case False
    then have "last (pool w) \<in> set (pool w)" by simp
    moreover have "set (pool w) \<inter> set (active_list w) = {}"
      using assms by (simp add: pool_inv_def)
    ultimately have "last (pool w) \<notin> set (active_list w)" by blast
    then show ?thesis using False by (simp add: get_def)
  qed
  show "pool_inv (snd (get c w))"
  proof (cases "pool w = []")
    case True
    then show ?thesis using assms by (auto simp: get_def pool_inv_def list_all_iff)
  next
    case False
    then have eq: "pool w = butlast (pool w) @ [last (pool w)]" by simp
    have d: "distinct (butlast (pool w) @ [last (pool w)] @ active_list w)"
      using assms eq by (metis append.assoc pool_inv_def)
    have l: "list_all (\<lambda>a. a < length (heap w)) (butlast (pool w) @ [last (pool w)] @ active_list w)"
      using assms eq by (metis append.assoc pool_inv_def)
    show ?thesis using d l False by (auto simp: get_def pool_inv_def)
  qed
  show "fst (get c w) < length (heap (snd (get c w)))"
  proof (cases "pool w = []")
    case True
    then show ?thesis by (simp add: get_def)
  next
    case False
    then have "last (pool w) \<in> set (pool w)" by simp
    moreover have "\<forall>a\<in>set (pool w). a < length (heap w)"
      using assms by (simp add: pool_inv_def list_all_iff)
    ultimately have "last (pool w) < length (heap w)" by blast
    then show ?thesis using False by (simp add: get_def)
  qed
qed

lemma spawn_at_inv [simp]: "pool_inv (spawn_at e now x y opts a w) = pool_inv w"
  by (simp add: pool_inv_def)

lemma Math_random_inv [simp]: "pool_inv (snd (Math_random e w)) = pool_inv w"
  by (simp add: pool_inv_def)

lemma spawn_at_heap:
  "a < length (heap w) \<Longrightarrow>
   heap (spawn_at e now x y opts a w) ! a = fst (Particle_spawn e now x y opts (heap w ! a, drawn w))"
  "b \<noteq> a \<Longrightarrow> heap (spawn_at e now x y opts a w) ! b = heap w ! b"
  by (simp_all add: spawn_at_def split: prod.splits)

lemma Particle_spawn_active [simp]: "active (fst (Particle_spawn e now x y opts pn))"
  by (simp add: Particle_spawn_def Let_def split: prod.splits)

lemma step_generic:
  assumes inv: "live_inv w"
    and w': "w' = spawn_at e now x y o' (fst (get c w)) wk"
    and wk: "heap wk = heap (snd (get c w))" "pool wk = pool (snd (get c w))"
            "active_list wk = active_list (snd (get c w))"
  shows "live_inv w'"
    and "active_list w' = active_list w @ [fst (get c w)]"
    and "pool w' = pool (snd (get c w))"
proof -
  let ?a = "fst (get c w)"
  have pinv: "pool_inv w" using inv by (simp add: live_inv_def)
  have fresh: "?a \<notin> set (active_list w)" by (rule get_spec(1) [OF pinv])
  have al: "active_list w' = active_list w @ [?a]"
    by (simp add: w' wk get_spec(2) [OF pinv])
  show "active_list w' = active_list w @ [?a]" by (rule al)
  show "pool w' = pool (snd (get c w))" by (simp add: w' wk)
  have a_lt: "?a < length (heap wk)" using get_spec(4) [OF pinv, of c] by (simp add: wk)
  have "pool_inv wk" using get_spec(3) [OF pinv, of c] by (simp add: pool_inv_def wk)
  then have p': "pool_inv w'" by (simp add: w')
  have act_a: "active (heap w' ! ?a)"
    using a_lt by (simp add: w' spawn_at_heap(1))
  have old: "active (heap w' ! b)" if b: "b \<in> set (active_list w)" for b
  proof -
    have ne: "b \<noteq> ?a" using fresh b by blast
    have "b < length (heap w)" using pinv b by (auto simp: pool_inv_def list_all_iff)
    then have "heap w' ! b = heap w ! b"
      using ne by (simp add: w' spawn_at_heap(2) wk get_spec(5) [OF pinv])
    moreover have "active (heap w ! b)" using inv b by (auto simp: live_inv_def list_all_iff)
    ultimately show ?thesis by simp
  qed
  show "live_inv w'"
    using p' act_a old by (auto simp: live_inv_def al list_all_iff)
qed

lemma body_live_inv:
  assumes "live_inv w"
  shows "live_inv (burst_body e now x y n opts i w)"
    and "live_inv (explosion_body e now x y opts i w)"
    and "live_inv (fountain_body e now x y opts i w)"
    and "live_inv (trail_body e now x y opts i w)"
  unfolding burst_body_def explosion_body_def fountain_body_def trail_body_def
    case_prod_beta Let_def
  by (rule step_generic(1) [OF assms refl]; simp)+

lemma fold_inv:
  assumes "\<And>i w. P w \<Longrightarrow> P (body i w)" and "P w"
  shows "P (fold body xs w)"
  using assms by (induction xs arbitrary: w) simp_all

lemma spawn_live_inv:
  assumes "live_inv w"
  shows "live_inv (run_op e op w)"
proof -
  obtain now sop where fields: "op = (now, sop)" by (cases op)
  show ?thesis
    using assms
    by (cases sop)
       (auto simp: fields spawnBurst_def spawnExplosion_def spawnFountain_def spawnTrail_def
          for_loop_fold Let_def intro!: fold_inv body_live_inv)
qed

lemma spawn_count:
  "getActiveCount (run_op e (now, sop) w) =
     (if maxParticles (cfg e) \<le> getActiveCount w then getActiveCount w
      else getActiveCount w + requested e sop)"
  by (cases sop)
     (simp_all add: spawnBurst_def spawnExplosion_def spawnFountain_def spawnTrail_def
        for_loop_fold Let_def fold_count body_count)

lemma new_live_inv: "live_inv (ParticlePool_new c n)"
  by (simp add: live_inv_def pool_inv_def ParticlePool_new_def list_all_iff)

lemma new_count [simp]: "getActiveCount (ParticlePool_new c n) = 0"
  by (simp add: getActiveCount_def ParticlePool_new_def)

lemma run_ops_live_inv: "live_inv w \<Longrightarrow> live_inv (run_ops e ops w)"
  unfolding run_ops_def by (induction ops arbitrary: w) (simp_all add: spawn_live_inv)

lemma run_ops_count:
  "getActiveCount (run_ops e ops w) = acquired e (map snd ops) (getActiveCount w)"
  unfolding run_ops_def
proof (induction ops arbitrary: w)
  case Nil
  show ?case by simp
next
  case (Cons op ops)
  obtain now sop where op: "op = (now, sop)" by (cases op)
  show ?case by (simp add: Cons.IH op spawn_count del: run_op.simps)
qed

lemma acquired_bound:
  assumes "\<forall>op\<in>set sops. requested e op \<le> k" and "n \<le> maxParticles (cfg e) - 1 + k"
  shows "acquired e sops n \<le> maxParticles (cfg e) - 1 + k"
  using assms
proof (induction sops arbitrary: n)
  case Nil
  then show ?case by simp
next
  case (Cons op sops)
  have "(if maxParticles (cfg e) \<le> n then n else n + requested e op) \<le> maxParticles (cfg e) - 1 + k"
    using Cons.prems by (auto simp: le_diff_conv)
  then show ?case using Cons by simp
qed

section \<open>The particle budget\<close>

text \<open>
  Claim C1, as amended. For every sequence of spawn calls on a freshly constructed pool,
  the size of the live set equals the number of particles the calls acquired (no spawn
  call releases one), the live particles are pairwise distinct objects flagged active,
  and, the budget being checked once per call and not once per particle, the size stays
  at most \<open>maxParticles - 1\<close> plus the largest number of particles a single call asks for.
\<close>

theorem spawn_sequence_live_count:
  "getActiveCount (run_ops e ops (ParticlePool_new (cfg e) n)) = acquired e (map snd ops) 0 \<and>
   distinct (active_list (run_ops e ops (ParticlePool_new (cfg e) n))) \<and>
   list_all (\<lambda>a. active (heap (run_ops e ops (ParticlePool_new (cfg e) n)) ! a))
     (active_list (run_ops e ops (ParticlePool_new (cfg e) n))) \<and>
   ((\<forall>op\<in>set ops. requested e (snd op) \<le> k) \<longrightarrow>
      getActiveCount (run_ops e ops (ParticlePool_new (cfg e) n)) \<le> maxParticles (cfg e) - 1 + k)"
proof -
  let ?w = "run_ops e ops (ParticlePool_new (cfg e) n)"
  have cnt: "getActiveCount ?w = acquired e (map snd ops) 0"
    by (simp add: run_ops_count)
  have inv: "live_inv ?w"
    by (rule run_ops_live_inv) (rule new_live_inv)
  have bound: "getActiveCount ?w \<le> maxParticles (cfg e) - 1 + k"
    if "\<forall>op\<in>set ops. requested e (snd op) \<le> k"
    unfolding cnt by (rule acquired_bound) (use that in auto)
  show ?thesis
    using cnt inv bound by (simp add: live_inv_def pool_inv_def)
qed

text \<open>
  A burst of 20 followed by a default trail of 3 on the desktop profile: 23 live
  particles, within the bound \<open>199 + 20\<close>.
\<close>

theorem spawn_sequence_live_count_witness:
  "requested (startup_env False (fixed_random 0)) (Burst 0 0 20 no_options) \<le> 20 \<and>
   requested (startup_env False (fixed_random 0)) (Trail 0 0 None no_options) \<le> 20 \<and>
   getActiveCount (run_ops (startup_env False (fixed_random 0))
     [(0, Burst 0 0 20 no_options), (5, Trail 0 0 None no_options)]
     (ParticlePool_new (cfg (startup_env False (fixed_random 0))) 300)) = 23 \<and>
   getActiveCount (run_ops (startup_env False (fixed_random 0))
     [(0, Burst 0 0 20 no_options), (5, Trail 0 0 None no_options)]
     (ParticlePool_new (cfg (startup_env False (fixed_random 0))) 300)) \<le> 219"
  using spawn_sequence_live_count [of "startup_env False (fixed_random 0)"
      "[(0, Burst 0 0 20 no_options), (5, Trail 0 0 None no_options)]" 300 20]
  by (simp add: startup_env_def PARTICLE_CONFIG_def mobile_count_def)

text \<open>
  Claim C1 as stated fails: on the desktop profile (budget 200), seven explosions of 30
  particles each are all admitted, the seventh at 180 live particles, and leave 210.
\<close>

theorem spawn_sequence_exceeds_budget:
  "maxParticles (cfg (startup_env False (fixed_random 0))) <
   getActiveCount (run_ops (startup_env False (fixed_random 0))
     (replicate 7 (0, Explosion 0 0 30 no_options))
     (ParticlePool_new (cfg (startup_env False (fixed_random 0))) 300))"
  by (simp add: run_ops_count startup_env_def PARTICLE_CONFIG_def mobile_count_def
      eval_nat_numeral)

text \<open>
  Claim C5. A spawn call made while the live set has reached or passed
  \<open>maxParticles\<close> returns at once: the pool, the heap and the random source are as before,
  so is \<open>getActiveCount\<close>; this holds for all four operations.
\<close>

theorem over_budget_is_noop:
  assumes "maxParticles (cfg e) \<le> getActiveCount w"
  shows "spawnBurst e now x y n opts w = w \<and>
         spawnExplosion e now x y n opts w = w \<and>
         spawnFountain e now x y n opts w = w \<and>
         spawnTrail e now x y m opts w = w"
  using assms
  by (simp add: spawnBurst_def spawnExplosion_def spawnFountain_def spawnTrail_def)

text \<open>After a burst of 200 the desktop budget is used up; further calls change nothing.\<close>

theorem over_budget_is_noop_witness:
  "maxParticles (cfg (startup_env False (fixed_random 0))) \<le>
     getActiveCount (spawnBurst (startup_env False (fixed_random 0)) 0 0 0 200 no_options
       (ParticlePool_new PARTICLE_CONFIG 300)) \<and>
   spawnBurst (startup_env False (fixed_random 0)) 1 10 10 20 no_options
     (spawnBurst (startup_env False (fixed_random 0)) 0 0 0 200 no_options
       (ParticlePool_new PARTICLE_CONFIG 300)) =
   spawnBurst (startup_env False (fixed_random 0)) 0 0 0 200 no_options
       (ParticlePool_new PARTICLE_CONFIG 300) \<and>
   spawnTrail (startup_env False (fixed_random 0)) 1 10 10 None no_options
     (spawnBurst (startup_env False (fixed_random 0)) 0 0 0 200 no_options
       (ParticlePool_new PARTICLE_CONFIG 300)) =
   spawnBurst (startup_env False (fixed_random 0)) 0 0 0 200 no_options
       (ParticlePool_new PARTICLE_CONFIG 300)"
proof -
  let ?e = "startup_env False (fixed_random 0)"
  let ?w = "spawnBurst ?e 0 0 0 200 no_options (ParticlePool_new PARTICLE_CONFIG 300)"
  have "getActiveCount ?w = 200"
    using spawn_count [of ?e 0 "Burst 0 0 200 no_options" "ParticlePool_new PARTICLE_CONFIG 300"]
    by (simp add: startup_env_def PARTICLE_CONFIG_def mobile_count_def)
  then have h: "maxParticles (cfg ?e) \<le> getActiveCount ?w"
    by (simp add: startup_env_def PARTICLE_CONFIG_def)
  show ?thesis
    using h over_budget_is_noop [OF h, of 1 10 10 20 no_options None] by simp
qed

section \<open>Field-wise facts about the pool operations\<close>

lemma butlast_upt: "butlast [i..<j] = [i..<j - 1]"
proof (cases j)
  case 0
  then show ?thesis by simp
next
  case (Suc k)
  then show ?thesis by (cases "i \<le> k") simp_all
qed

lemma release_fields:
  "pool (release c a w) = (if length (pool w) < poolSize c then pool w @ [a] else pool w)"
  "active_list (release c a w) = remove1 a (active_list w)"
  "heap (release c a w) = (heap w)[a := Particle_new c]"
  "drawn (release c a w) = drawn w"
  by (simp_all add: release_def Let_def Particle_reset_new)

lemma acquire_n_numeral:
  "acquire_n c (numeral k) w =
     (let (a, w1) = get c w; (as, w2) = acquire_n c (pred_numeral k) w1 in (a # as, w2))"
  by (simp add: numeral_eq_Suc)

lemma get_fields:
  "fst (get c w) = (if pool w = [] then length (heap w) else last (pool w))"
  "pool (snd (get c w)) = butlast (pool w)"
  "active_list (snd (get c w)) = active_list w @ [fst (get c w)]"
  "heap (snd (get c w)) = (if pool w = [] then heap w @ [Particle_new c] else heap w)"
  "drawn (snd (get c w)) = drawn w"
  by (simp_all add: get_def)

lemma desktop_simps [simp]:
  "cfg desktop = PARTICLE_CONFIG" "IS_MOBILE_DEVICE desktop = False" "rand desktop n = 1 / 2"
  by (simp_all add: desktop_def startup_env_def fixed_random_def)

lemma red_particle_world_fields:
  "pool red_particle_world = [0..<299]"
  "active_list red_particle_world = [299]"
  "length (heap red_particle_world) = 300"
  "heap red_particle_world ! 299 =
     fst (Particle_spawn desktop 0 10 10 (no_options\<lparr>o_color := Val ''#FF0000''\<rparr>)
       (Particle_new PARTICLE_CONFIG, 0))"
  by (simp_all add: red_particle_world_def case_prod_beta get_fields ParticlePool_new_def
      butlast_upt spawn_at_heap)

lemma Particle_spawn_fields:
  "birthTime (fst (Particle_spawn e t0 x y opts pn)) = t0"
  "maxLife (fst (Particle_spawn e t0 x y opts pn)) =
     (case o_lifetime opts of Val l \<Rightarrow> l | _ \<Rightarrow> lifetime (cfg e))"
  "life (fst (Particle_spawn e t0 x y opts pn)) = Num 1"
  by (simp_all add: Particle_spawn_def Let_def case_prod_beta)

lemma remove1_nth:
  assumes "distinct xs" and "i < length xs"
  shows "remove1 (xs ! i) xs = take i xs @ drop (Suc i) xs"
proof -
  have xs: "xs = take i xs @ xs ! i # drop (Suc i) xs"
    using assms(2) by (rule id_take_nth_drop)
  have "distinct (take i xs @ xs ! i # drop (Suc i) xs)" using assms(1) xs by simp
  then have "xs ! i \<notin> set (take i xs)" by simp
  then have "remove1 (xs ! i) (take i xs @ xs ! i # drop (Suc i) xs) = take i xs @ drop (Suc i) xs"
    by (simp add: remove1_append)
  then show ?thesis using xs by simp
qed

lemma release_pool_inv:
  assumes "pool_inv w" and "a \<in> set (active_list w)"
  shows "pool_inv (release c a w)"
proof -
  have d: "distinct (pool w)" "distinct (active_list w)" "set (pool w) \<inter> set (active_list w) = {}"
    using assms(1) by (simp_all add: pool_inv_def)
  have b: "\<forall>b\<in>set (pool w @ active_list w). b < length (heap w)"
    using assms(1) by (simp add: pool_inv_def list_all_iff)
  have "a \<notin> set (pool w)" using d(3) assms(2) by blast
  then have "distinct (pool (release c a w) @ active_list (release c a w))"
    using d by (auto simp: release_fields)
  moreover have "\<forall>b\<in>set (pool (release c a w) @ active_list (release c a w)).
      b < length (heap (release c a w))"
    using b assms(2) by (auto simp: release_fields dest: notin_set_remove1)
  ultimately show ?thesis by (simp add: pool_inv_def list_all_iff)
qed

section \<open>Clearing the pool\<close>

text \<open>
  \<^verbatim>\<open>clear()\<close> releases the particle at index \<open>k\<close> of the array as it is at the \<open>k\<close>-th
  step. Each release shifts the rest of the array down by one, so on a live set without
  duplicates the particles at the even positions are released and those at the odd
  positions stay: half of the live set (rounded down) survives a \<^verbatim>\<open>clear()\<close>. The
  invariant survives it too.
\<close>

lemma length_every_other: "length (every_other xs) = length xs div 2"
  by (induction xs rule: every_other.induct) simp_all

lemma clear_step_beyond:
  "length (active_list w) \<le> k \<Longrightarrow> clear_step c k w = w"
  by (simp add: clear_step_def)

lemma clear_steps_beyond:
  "length (active_list w) \<le> k \<Longrightarrow> fold (clear_step c) [k..<n] w = w"
proof (induction "n - k" arbitrary: k)
  case 0
  then show ?case by simp
next
  case (Suc m)
  then have "k < n" by simp
  then have "[k..<n] = k # [Suc k..<n]" by (simp add: upt_conv_Cons)
  moreover have "fold (clear_step c) [Suc k..<n] w = w"
    using Suc by simp
  ultimately show ?case using Suc.prems by (simp add: clear_step_beyond)
qed

lemma clear_from:
  assumes "distinct (ys @ zs)" and "active_list w = ys @ zs" and "length ys = k"
    and "k + length zs \<le> n"
  shows "active_list (fold (clear_step c) [k..<n] w) = ys @ every_other zs"
  using assms
proof (induction zs arbitrary: ys k w rule: every_other.induct)
  case 1
  then show ?case by (simp add: clear_steps_beyond)
next
  case (2 x)
  then have kn: "[k..<n] = k # [Suc k..<n]" by (simp add: upt_conv_Cons)
  have x: "active_list w ! k = x" using 2 by (simp add: nth_append)
  have "x \<notin> set ys" using 2 by simp
  then have al: "active_list (clear_step c k w) = ys"
    using 2 x by (simp add: clear_step_def release_fields remove1_append)
  have "fold (clear_step c) [Suc k..<n] (clear_step c k w) = clear_step c k w"
    by (rule clear_steps_beyond) (simp add: al 2)
  then show ?case by (simp add: kn al)
next
  case (3 x y zs)
  then have kn: "[k..<n] = k # [Suc k..<n]" by (simp add: upt_conv_Cons)
  have x: "active_list w ! k = x" using 3 by (simp add: nth_append)
  have "x \<notin> set ys" using 3 by simp
  then have al: "active_list (clear_step c k w) = (ys @ [y]) @ zs"
    using 3 x by (simp add: clear_step_def release_fields remove1_append)
  have "active_list (fold (clear_step c) [Suc k..<n] (clear_step c k w)) =
        (ys @ [y]) @ every_other zs"
    by (rule "3.IH" [OF _ al]) (use "3.prems" in auto)
  then show ?case by (simp add: kn)
qed

lemma clear_every_other:
  assumes "distinct (active_list w)"
  shows "active_list (clear c w) = every_other (active_list w)"
    and "getActiveCount (clear c w) = getActiveCount w div 2"
proof -
  show "active_list (clear c w) = every_other (active_list w)"
    using clear_from [of "[]" "active_list w" w 0 "length (active_list w)" c] assms
    by (simp add: clear_def)
  then show "getActiveCount (clear c w) = getActiveCount w div 2"
    by (simp add: getActiveCount_def length_every_other)
qed

lemma clear_pool_inv: "pool_inv w \<Longrightarrow> pool_inv (clear c w)"
  unfolding clear_def
proof (rule fold_inv)
  show "pool_inv (clear_step c k v)" if "pool_inv v" for k v
    using that by (simp add: clear_step_def release_pool_inv)
qed

text \<open>
  Claim C2 (the code departs from it). \<^verbatim>\<open>clear()\<close> iterates \<^verbatim>\<open>this.active\<close> with
  \<^verbatim>\<open>forEach\<close> while \<^verbatim>\<open>release\<close> splices the visited element out of that same array, so
  every second particle is skipped: of two particles acquired from the engine's pool of
  300, one is still live after \<^verbatim>\<open>clear()\<close>, and \<open>getActiveCount\<close> is 1, not 0.
\<close>

theorem clear_leaves_live_particles:
  "getActiveCount (snd (acquire_n PARTICLE_CONFIG 2 (ParticlePool_new PARTICLE_CONFIG 300))) = 2 \<and>
   active_list (clear PARTICLE_CONFIG
      (snd (acquire_n PARTICLE_CONFIG 2 (ParticlePool_new PARTICLE_CONFIG 300)))) = [298] \<and>
   getActiveCount (clear PARTICLE_CONFIG
      (snd (acquire_n PARTICLE_CONFIG 2 (ParticlePool_new PARTICLE_CONFIG 300)))) = 1"
proof -
  let ?c = PARTICLE_CONFIG
  let ?w = "snd (acquire_n ?c 2 (ParticlePool_new ?c 300))"
  have al: "active_list ?w = [299, 298]"
    by (simp add: acquire_n_numeral case_prod_beta get_fields ParticlePool_new_def butlast_upt)
  have "[0..<length (active_list ?w)] = [0, 1]"
    unfolding al by (simp add: upt_rec)
  then have "clear ?c ?w = clear_step ?c 1 (clear_step ?c 0 ?w)"
    by (simp add: clear_def)
  then have "active_list (clear ?c ?w) = [298]"
    by (simp add: clear_step_def release_fields al)
  then show ?thesis
    by (simp add: getActiveCount_def al)
qed

section \<open>The mobile spawn rate\<close>

text \<open>
  Claim C3 (the code departs from it). On the mobile profile (spawn rate 1/2) a burst of 20
  under budget spawns \<open>\<lceil>20 * 1/2\<rceil> = 10\<close> particles, but a trail of 20 spawns all 20:
  \<^verbatim>\<open>spawnTrail\<close> lacks the block that reduces the count.
\<close>

theorem trail_ignores_mobile_rate:
  "getActiveCount (spawnBurst (startup_env True (fixed_random 0)) 0 0 0 20 no_options
      (ParticlePool_new (cfg (startup_env True (fixed_random 0))) 300)) = 10 \<and>
   getActiveCount (spawnTrail (startup_env True (fixed_random 0)) 0 0 0 (Some 20) no_options
      (ParticlePool_new (cfg (startup_env True (fixed_random 0))) 300)) = 20"
  using spawn_count [of "startup_env True (fixed_random 0)" 0 "Burst 0 0 20 no_options"
      "ParticlePool_new (cfg (startup_env True (fixed_random 0))) 300"]
    spawn_count [of "startup_env True (fixed_random 0)" 0 "Trail 0 0 (Some 20) no_options"
      "ParticlePool_new (cfg (startup_env True (fixed_random 0))) 300"]
  by (simp add: startup_env_def PARTICLE_CONFIG_def apply_mobile_def mobile_count_def)

section \<open>Seven acquisitions from a pool of five\<close>

lemma release_all_pool:
  "pool (release_all c ps w) = pool w @ take (poolSize c - length (pool w)) ps"
  unfolding release_all_def
proof (induction ps arbitrary: w)
  case Nil
  show ?case by simp
next
  case (Cons a ps)
  show ?case
  proof (cases "length (pool w) < poolSize c")
    case True
    then have "poolSize c - length (pool w) = Suc (poolSize c - Suc (length (pool w)))" by simp
    then show ?thesis using True by (simp add: Cons.IH release_fields)
  next
    case False
    then show ?thesis by (simp add: Cons.IH release_fields)
  qed
qed

lemma release_all_active:
  "distinct (active_list w) \<Longrightarrow>
   active_list (release_all c ps w) = filter (\<lambda>a. a \<notin> set ps) (active_list w)"
  unfolding release_all_def
proof (induction ps arbitrary: w)
  case Nil
  show ?case by simp
next
  case (Cons a ps)
  have al: "active_list (release c a w) = remove1 a (active_list w)"
    by (simp add: release_fields)
  have "active_list (fold (release c) ps (release c a w)) =
        filter (\<lambda>b. b \<notin> set ps) (active_list (release c a w))"
    by (rule Cons.IH) (simp add: al Cons.prems)
  also have "\<dots> = filter (\<lambda>b. b \<notin> set ps) (filter (\<lambda>b. a \<noteq> b) (active_list w))"
    unfolding al using Cons.prems
    by (simp only: distinct_remove1_removeAll removeAll_filter_not_eq)
  also have "\<dots> = filter (\<lambda>b. b \<notin> set (a # ps)) (active_list w)"
    unfolding filter_filter by (rule filter_cong) auto
  finally show ?case by simp
qed

lemma acquire_7_of_5:
  "acquire_n c 7 (ParticlePool_new c 5) =
     ([4, 3, 2, 1, 0, 5, 6],
      \<lparr>heap = replicate 5 (Particle_new c) @ [Particle_new c, Particle_new c],
       pool = [], active_list = [4, 3, 2, 1, 0, 5, 6], drawn = 0\<rparr>)"
  by (simp add: acquire_n_numeral get_def ParticlePool_new_def butlast_upt)

text \<open>
  Claim C8, as amended. \<^verbatim>\<open>release\<close> caps the free list by the configured
  \<^verbatim>\<open>PARTICLE_CONFIG.poolSize\<close>, not by the size the pool was constructed with. When the
  configured pool size is 5 and the pool is constructed with 5 particles, seven
  calls of \<^verbatim>\<open>get()\<close> return seven distinct particles, which form the live set: the first
  five are the preallocated ones of the free list, the last two are new objects. Releasing
  all seven, in any order \<open>ps\<close>, puts the first five released on the free list, empties the
  live set, and leaves the other two in neither array.
\<close>

theorem seven_of_five:
  assumes cap: "poolSize c = 5"
    and ps: "distinct ps" "set ps = set (fst (acquire_n c 7 (ParticlePool_new c 5)))"
  shows "length (fst (acquire_n c 7 (ParticlePool_new c 5))) = 7 \<and>
         distinct (fst (acquire_n c 7 (ParticlePool_new c 5))) \<and>
         active_list (snd (acquire_n c 7 (ParticlePool_new c 5))) =
           fst (acquire_n c 7 (ParticlePool_new c 5)) \<and>
         set (take 5 (fst (acquire_n c 7 (ParticlePool_new c 5)))) =
           set (pool (ParticlePool_new c 5)) \<and>
         list_all (\<lambda>a. length (heap (ParticlePool_new c 5)) \<le> a)
           (drop 5 (fst (acquire_n c 7 (ParticlePool_new c 5)))) \<and>
         pool (release_all c ps (snd (acquire_n c 7 (ParticlePool_new c 5)))) = take 5 ps \<and>
         length (pool (release_all c ps (snd (acquire_n c 7 (ParticlePool_new c 5))))) = 5 \<and>
         active_list (release_all c ps (snd (acquire_n c 7 (ParticlePool_new c 5)))) = [] \<and>
         length (drop 5 ps) = 2 \<and>
         set (drop 5 ps) \<inter>
           set (pool (release_all c ps (snd (acquire_n c 7 (ParticlePool_new c 5))))) = {}"
proof -
  let ?as = "[4, 3, 2, 1, 0, 5, 6] :: nat list"
  let ?w0 = "ParticlePool_new c 5"
  let ?w7 = "snd (acquire_n c 7 ?w0)"
  have as: "fst (acquire_n c 7 ?w0) = ?as" by (simp add: acquire_7_of_5)
  have al: "active_list ?w7 = ?as" by (simp add: acquire_7_of_5)
  have pl: "pool ?w7 = []" by (simp add: acquire_7_of_5)
  have set_ps: "set ps = set ?as" using ps(2) by (simp only: as)
  have "card (set ps) = 7" unfolding set_ps by simp
  then have len: "length ps = 7" using ps(1) by (simp add: distinct_card)
  have "distinct (take 5 ps @ drop 5 ps)" using ps(1) by simp
  then have disj: "set (drop 5 ps) \<inter> set (take 5 ps) = {}"
    unfolding distinct_append by blast
  have filt: "filter (\<lambda>a. a \<notin> set ps) ?as = []"
    unfolding set_ps by simp
  have pre: "set (take 5 ?as) = set (pool ?w0)"
    by (auto simp: ParticlePool_new_def)
  have fresh: "list_all (\<lambda>a. length (heap ?w0) \<le> a) (drop 5 ?as)"
    by (simp add: ParticlePool_new_def)
  have rp: "pool (release_all c ps ?w7) = take 5 ps"
    by (simp add: release_all_pool pl cap)
  have "distinct (active_list ?w7)" unfolding al by simp
  then have "active_list (release_all c ps ?w7) = filter (\<lambda>a. a \<notin> set ps) (active_list ?w7)"
    by (rule release_all_active)
  then have ra: "active_list (release_all c ps ?w7) = []"
    unfolding al filt .
  show ?thesis
    unfolding as al rp ra using len disj pre fresh by simp
qed

text \<open>Released in the order 6, 0, 5, 1, 2, 3, 4, the particles 3 and 4 are dropped.\<close>

theorem seven_of_five_witness:
  "poolSize (PARTICLE_CONFIG\<lparr>poolSize := 5\<rparr>) = 5 \<and>
   distinct [6, 0, 5, 1, 2, 3, 4 :: nat] \<and>
   set [6, 0, 5, 1, 2, 3, 4] =
     set (fst (acquire_n (PARTICLE_CONFIG\<lparr>poolSize := 5\<rparr>) 7
       (ParticlePool_new (PARTICLE_CONFIG\<lparr>poolSize := 5\<rparr>) 5))) \<and>
   pool (release_all (PARTICLE_CONFIG\<lparr>poolSize := 5\<rparr>) [6, 0, 5, 1, 2, 3, 4]
     (snd (acquire_n (PARTICLE_CONFIG\<lparr>poolSize := 5\<rparr>) 7
       (ParticlePool_new (PARTICLE_CONFIG\<lparr>poolSize := 5\<rparr>) 5)))) = [6, 0, 5, 1, 2] \<and>
   active_list (release_all (PARTICLE_CONFIG\<lparr>poolSize := 5\<rparr>) [6, 0, 5, 1, 2, 3, 4]
     (snd (acquire_n (PARTICLE_CONFIG\<lparr>poolSize := 5\<rparr>) 7
       (ParticlePool_new (PARTICLE_CONFIG\<lparr>poolSize := 5\<rparr>) 5)))) = []"
proof -
  let ?c = "PARTICLE_CONFIG\<lparr>poolSize := 5\<rparr>"
  have h1: "poolSize ?c = 5" by simp
  have h2: "distinct [6, 0, 5, 1, 2, 3, 4 :: nat]" by simp
  have h3: "set [6, 0, 5, 1, 2, 3, 4] = set (fst (acquire_n ?c 7 (ParticlePool_new ?c 5)))"
    by (auto simp: acquire_7_of_5)
  show ?thesis
    using h1 h2 h3 seven_of_five [OF h1 h2 h3] by simp
qed

text \<open>
  Claim C8 as stated fails: under the configuration of the program (pool size 300, on the
  desktop and on the mobile profile) a pool constructed with 5 particles hands out the same
  seven particles, and releasing all seven puts all seven on the free list: none is
  discarded.
\<close>

theorem seven_of_five_keeps_all_seven:
  "poolSize PARTICLE_CONFIG = 300 \<and>
   poolSize (apply_mobile PARTICLE_CONFIG) = 300 \<and>
   fst (acquire_n PARTICLE_CONFIG 7 (ParticlePool_new PARTICLE_CONFIG 5)) = [4, 3, 2, 1, 0, 5, 6] \<and>
   pool (release_all PARTICLE_CONFIG [4, 3, 2, 1, 0, 5, 6]
     (snd (acquire_n PARTICLE_CONFIG 7 (ParticlePool_new PARTICLE_CONFIG 5)))) =
     [4, 3, 2, 1, 0, 5, 6] \<and>
   length (pool (release_all PARTICLE_CONFIG [4, 3, 2, 1, 0, 5, 6]
     (snd (acquire_n PARTICLE_CONFIG 7 (ParticlePool_new PARTICLE_CONFIG 5))))) \<noteq> 5"
proof -
  have ps: "poolSize PARTICLE_CONFIG = 300" "poolSize (apply_mobile PARTICLE_CONFIG) = 300"
    by (simp_all add: PARTICLE_CONFIG_def apply_mobile_def)
  have "pool (release_all PARTICLE_CONFIG [4, 3, 2, 1, 0, 5, 6]
     (snd (acquire_n PARTICLE_CONFIG 7 (ParticlePool_new PARTICLE_CONFIG 5)))) =
     [4, 3, 2, 1, 0, 5, 6]"
    by (simp add: acquire_7_of_5 release_all_pool ps)
  then show ?thesis
    using ps by (simp add: acquire_7_of_5)
qed

section \<open>No state leaks through a recycled particle\<close>

lemma Particle_spawn_overwrites:
  "Particle_spawn e now x y opts (p, n) = Particle_spawn e now x y opts (q, n)"
  by (simp add: Particle_spawn_def Let_def case_prod_beta)

text \<open>
  Claim C9. \<^verbatim>\<open>spawn\<close> writes every field of the particle, so its result is the same
  whatever the particle held before. When the free list is below its capacity, a released
  particle is the one the next \<^verbatim>\<open>get()\<close> returns, and after the following \<^verbatim>\<open>spawn\<close> the
  whole world (the recycled particle included) is the same whatever that particle's fields
  \<open>q\<close> were before the release.
\<close>

theorem respawn_no_leak:
  assumes "length (pool w) < poolSize (cfg e)" and "a < length (heap w)"
  shows "fst (Particle_spawn e now x y opts (p, n)) = fst (Particle_spawn e now x y opts (q, n)) \<and>
         fst (respawn e now x y opts a w) = a \<and>
         respawn e now x y opts a (w\<lparr>heap := (heap w)[a := q]\<rparr>) = respawn e now x y opts a w \<and>
         heap (snd (respawn e now x y opts a w)) ! a =
           fst (Particle_spawn e now x y opts (q, drawn w))"
proof -
  have rel: "release (cfg e) a (w\<lparr>heap := (heap w)[a := q]\<rparr>) = release (cfg e) a w"
    by (simp add: release_def Let_def Particle_reset_new)
  have g: "fst (get (cfg e) (release (cfg e) a w)) = a"
    using assms(1) by (simp add: get_fields release_fields)
  have "heap (snd (respawn e now x y opts a w)) ! a =
        fst (Particle_spawn e now x y opts (Particle_new (cfg e), drawn w))"
    using assms
    by (simp add: respawn_def Let_def case_prod_beta g spawn_at_heap get_fields release_fields)
  then have h: "heap (snd (respawn e now x y opts a w)) ! a =
        fst (Particle_spawn e now x y opts (q, drawn w))"
    by (simp add: Particle_spawn_overwrites [of _ _ _ _ _ "Particle_new (cfg e)" _ q])
  show ?thesis
    using g h
    by (simp add: respawn_def Let_def case_prod_beta rel
        Particle_spawn_overwrites [of _ _ _ _ _ p _ q])
qed

text \<open>
  A particle spawned with the explicit colour \<^verbatim>\<open>#FF0000\<close> and respawned without a colour
  carries the palette colour the random source picks.
\<close>

theorem respawn_no_leak_witness:
  "length (pool red_particle_world) < poolSize (cfg desktop) \<and>
   299 < length (heap red_particle_world) \<and>
   color (heap red_particle_world ! 299) = Some ''#FF0000'' \<and>
   fst (respawn desktop 5 1 1 no_options 299 red_particle_world) = 299 \<and>
   color (heap (snd (respawn desktop 5 1 1 no_options 299 red_particle_world)) ! 299) =
     Some ''#A8E6CF''"
proof -
  have h1: "length (pool red_particle_world) < poolSize (cfg desktop)"
    by (simp add: red_particle_world_fields PARTICLE_CONFIG_def)
  have h2: "299 < length (heap red_particle_world)"
    by (simp add: red_particle_world_fields)
  have c1: "color (heap red_particle_world ! 299) = Some ''#FF0000''"
    by (simp add: red_particle_world_fields Particle_spawn_def Let_def case_prod_beta
        or_draw_def no_options_def)
  have c2: "color (fst (Particle_spawn desktop 5 1 1 no_options
      (Particle_new PARTICLE_CONFIG, drawn red_particle_world))) = Some ''#A8E6CF''"
    by (simp add: Particle_spawn_def Let_def case_prod_beta or_draw_def no_options_def
        js_index_def PARTICLE_CONFIG_def)
  show ?thesis
    using h1 h2 c1 c2
      respawn_no_leak [OF h1 h2, of 5 1 1 no_options "Particle_new PARTICLE_CONFIG" 0
        "Particle_new PARTICLE_CONFIG"]
    by simp
qed

section \<open>Ageing\<close>

lemma update_deactivates:
  "active (Particle_update c t d p) \<Longrightarrow> \<not> le_zero (life (Particle_update c t d p))"
  by (auto simp: Particle_update_def Let_def split: if_splits)

text \<open>
  Claim C7. For an active particle with a positive \<open>maxLife\<close> (every lifetime of the
  configuration and of the callers is one), the life that \<^verbatim>\<open>update\<close> computes at the time
  \<open>t\<close> is \<open>1 - (t - birthTime) / maxLife\<close>: it does not increase with \<open>t\<close>, and it is at most 0
  from \<open>birthTime + maxLife\<close> on. For every particle \<open>q\<close>, an update that computes a life
  at most 0 clears the active flag in that same call.
\<close>

theorem life_nonincreasing:
  assumes "active p" and "0 < maxLife p"
  shows "life (Particle_update c t d p) = Num (1 - (t - birthTime p) / maxLife p) \<and>
         (ta \<le> tb \<longrightarrow>
            js_le (life (Particle_update c tb db p)) (life (Particle_update c ta da p))) \<and>
         (birthTime p + maxLife p \<le> t \<longrightarrow> le_zero (life (Particle_update c t d p))) \<and>
         (active q \<and> le_zero (life (Particle_update c t d q)) \<longrightarrow>
            \<not> active (Particle_update c t d q))"
proof -
  have lf: "life (Particle_update c t d p) = Num (1 - (t - birthTime p) / maxLife p)" for t d
    using assms by (simp add: Particle_update_def Let_def js_div_def)
  have mono: "js_le (life (Particle_update c tb db p)) (life (Particle_update c ta da p))"
    if "ta \<le> tb"
    using that assms by (simp add: lf divide_right_mono)
  have expiry: "le_zero (life (Particle_update c t d p))" if "birthTime p + maxLife p \<le> t"
    using that assms by (simp add: lf)
  have deact: "\<not> active (Particle_update c t d q)" if "le_zero (life (Particle_update c t d q))"
    using that update_deactivates [of c t d q] by blast
  show ?thesis using lf mono expiry deact by blast
qed

text \<open>
  A particle spawned at time 0 with the desktop lifetime of 2000 ms: its life at 1500 is
  below its life at 1000, and at 2000 it is 0 and the particle is inactive.
\<close>

theorem life_nonincreasing_witness:
  "active (fst (Particle_spawn desktop 0 10 10 no_options (Particle_new PARTICLE_CONFIG, 0))) \<and>
   0 < maxLife (fst (Particle_spawn desktop 0 10 10 no_options (Particle_new PARTICLE_CONFIG, 0))) \<and>
   life (Particle_update PARTICLE_CONFIG 2000 (Num 16)
     (fst (Particle_spawn desktop 0 10 10 no_options (Particle_new PARTICLE_CONFIG, 0)))) = Num 0 \<and>
   js_le
     (life (Particle_update PARTICLE_CONFIG 1500 (Num 16)
       (fst (Particle_spawn desktop 0 10 10 no_options (Particle_new PARTICLE_CONFIG, 0)))))
     (life (Particle_update PARTICLE_CONFIG 1000 (Num 16)
       (fst (Particle_spawn desktop 0 10 10 no_options (Particle_new PARTICLE_CONFIG, 0))))) \<and>
   \<not> active (Particle_update PARTICLE_CONFIG 2000 (Num 16)
     (fst (Particle_spawn desktop 0 10 10 no_options (Particle_new PARTICLE_CONFIG, 0))))"
proof -
  let ?p = "fst (Particle_spawn desktop 0 10 10 no_options (Particle_new PARTICLE_CONFIG, 0))"
  have h1: "active ?p" by simp
  have ml: "maxLife ?p = 2000" "birthTime ?p = 0"
    by (simp_all add: Particle_spawn_fields no_options_def PARTICLE_CONFIG_def)
  have h2: "0 < maxLife ?p" by (simp add: ml)
  show ?thesis
    using h1 h2
      life_nonincreasing [OF h1 h2, where c = PARTICLE_CONFIG and t = 2000 and d = "Num 16"
        and ta = 1000 and tb = 1500 and da = "Num 16" and db = "Num 16" and q = ?p]
    by (simp add: ml)
qed

lemma Particle_update_ignores_delta:
  "Particle_update c now d1 p = Particle_update c now d2 p"
  by (simp add: Particle_update_def)

lemma expired_update: "expired now p \<Longrightarrow> \<not> active (Particle_update c now d p)"
  by (auto simp: expired_def Particle_update_def Let_def js_div_def)

lemma update_keeps_clock:
  "birthTime (Particle_update c t d p) = birthTime p"
  "maxLife (Particle_update c t d p) = maxLife p"
  by (simp_all add: Particle_update_def Let_def)

lemma update_before_expiry:
  assumes "active p" and "t < birthTime p + maxLife p" and "0 < maxLife p"
  shows "active (Particle_update c t d p)"
proof -
  have "(t - birthTime p) / maxLife p < 1" using assms by (simp add: field_simps)
  then show ?thesis using assms by (simp add: Particle_update_def Let_def js_div_def)
qed

lemma frames_before_expiry:
  assumes "active p" and "0 < maxLife p"
    and "\<forall>f\<in>set frames. fst f < birthTime p + maxLife p"
  shows "active (fold (\<lambda>f. Particle_update c (fst f) (snd f)) frames p)"
  using assms
proof (induction frames arbitrary: p)
  case Nil
  then show ?case by simp
next
  case (Cons f frames)
  have "active (Particle_update c (fst f) (snd f) p)"
    using Cons.prems by (simp add: update_before_expiry)
  then show ?case
    using Cons.prems by (simp add: Cons.IH update_keeps_clock)
qed

lemma update_loop_expired:
  assumes "pool_inv w" and "i \<le> length (active_list w)"
    and "\<forall>a\<in>set (take i (active_list w)). expired now (heap w ! a)"
  shows "\<exists>w'. update_loop c now d i w = Some w' \<and>
              active_list w' = drop i (active_list w) \<and> pool_inv w'"
  using assms
proof (induction i arbitrary: w)
  case 0
  then show ?case by simp
next
  case (Suc i)
  let ?xs = "active_list w"
  let ?a = "?xs ! i"
  let ?w1 = "w\<lparr>heap := (heap w)[?a := Particle_update c now d (heap w ! ?a)]\<rparr>"
  let ?w2 = "release c ?a ?w1"
  have i: "i < length ?xs" using Suc.prems(2) by simp
  have dist: "distinct ?xs" using Suc.prems(1) by (simp add: pool_inv_def)
  have a_in: "?a \<in> set ?xs" using i by simp
  have a_lt: "?a < length (heap w)"
    using Suc.prems(1) a_in by (auto simp: pool_inv_def list_all_iff)
  have "?a \<in> set (take (Suc i) ?xs)" using i by (simp add: take_Suc_conv_app_nth)
  then have "expired now (heap w ! ?a)" using Suc.prems(3) by blast
  then have dead: "\<not> active (heap ?w1 ! ?a)" using a_lt by (simp add: expired_update)
  have inv1: "pool_inv ?w1" using Suc.prems(1) by (simp add: pool_inv_def)
  have inv2: "pool_inv ?w2" by (rule release_pool_inv [OF inv1]) (use a_in in simp)
  have al2: "active_list ?w2 = take i ?xs @ drop (Suc i) ?xs"
    using remove1_nth [OF dist i] by (simp add: release_fields)
  have len2: "i \<le> length (active_list ?w2)" using i by (simp add: al2)
  have tk: "take i (active_list ?w2) = take i ?xs" using i by (simp add: al2)
  have exp2: "\<forall>b\<in>set (take i (active_list ?w2)). expired now (heap ?w2 ! b)"
  proof
    fix b
    assume b: "b \<in> set (take i (active_list ?w2))"
    then have b1: "b \<in> set (take i ?xs)" by (simp only: tk)
    have "distinct (take i ?xs @ ?a # drop (Suc i) ?xs)"
      using dist id_take_nth_drop [OF i] by simp
    then have "b \<noteq> ?a" using b1 by auto
    then have "heap ?w2 ! b = heap w ! b" by (simp add: release_fields)
    moreover have "b \<in> set (take (Suc i) ?xs)" using b1 i by (simp add: take_Suc_conv_app_nth)
    ultimately show "expired now (heap ?w2 ! b)" using Suc.prems(3) by simp
  qed
  obtain w' where w': "update_loop c now d i ?w2 = Some w'"
      "active_list w' = drop i (active_list ?w2)" "pool_inv w'"
    using Suc.IH [OF inv2 len2 exp2] by blast
  have "drop i (active_list ?w2) = drop (Suc i) ?xs" using i by (simp add: al2)
  moreover have "update_loop c now d (Suc i) w = update_loop c now d i ?w2"
    using i dead by (simp add: Let_def)
  ultimately show ?case using w' by simp
qed

text \<open>
  \<^verbatim>\<open>ParticlePool.update\<close> never reads beyond the array: it returns, and keeps the
  invariant.
\<close>

lemma update_loop_total:
  assumes "i \<le> length (active_list w)"
  shows "\<exists>w'. update_loop c now d i w = Some w' \<and> (pool_inv w \<longrightarrow> pool_inv w')"
  using assms
proof (induction i arbitrary: w)
  case 0
  then show ?case by simp
next
  case (Suc i)
  let ?a = "active_list w ! i"
  let ?w1 = "w\<lparr>heap := (heap w)[?a := Particle_update c now d (heap w ! ?a)]\<rparr>"
  let ?w2 = "if \<not> active (heap ?w1 ! ?a) then release c ?a ?w1 else ?w1"
  have i: "i < length (active_list w)" using Suc.prems by simp
  then have a_in: "?a \<in> set (active_list w)" by simp
  have len: "i \<le> length (active_list ?w2)"
    using i a_in by (auto simp: release_fields length_remove1)
  have inv: "pool_inv ?w2" if "pool_inv w"
  proof -
    have "pool_inv ?w1" using that by (simp add: pool_inv_def)
    then show ?thesis using a_in by (simp add: release_pool_inv)
  qed
  obtain w' where "update_loop c now d i ?w2 = Some w'" "pool_inv ?w2 \<longrightarrow> pool_inv w'"
    using Suc.IH [OF len] by blast
  then show ?case using i inv by (auto simp: Let_def)
qed

text \<open>
  Claim C10. \<^verbatim>\<open>update\<close> ignores its \<^verbatim>\<open>deltaTime\<close> argument. A particle's age is the wall
  clock minus the time read at spawn: one update later than the spawn time plus the
  (non-negative) lifetime deactivates the particle, while any number of updates before
  the spawn time plus the (positive) lifetime leave it active. So after a pause that
  outlasts the lifetimes of all live particles, the first \<^verbatim>\<open>ParticlePool.update\<close> returns
  and has released them all.
\<close>

theorem aging_follows_wall_clock:
  assumes "pool_inv w" and "\<forall>a\<in>set (active_list w). expired now (heap w ! a)"
  shows "Particle_update c now d1 p = Particle_update c now d2 p \<and>
         (0 \<le> maxLife (fst (Particle_spawn e t0 x y opts pn)) \<and>
          t0 + maxLife (fst (Particle_spawn e t0 x y opts pn)) < now \<longrightarrow>
            \<not> active (Particle_update c now d (fst (Particle_spawn e t0 x y opts pn)))) \<and>
         (0 < maxLife (fst (Particle_spawn e t0 x y opts pn)) \<and>
          (\<forall>f\<in>set frames. fst f < t0 + maxLife (fst (Particle_spawn e t0 x y opts pn))) \<longrightarrow>
            active (fold (\<lambda>f. Particle_update c (fst f) (snd f)) frames
              (fst (Particle_spawn e t0 x y opts pn)))) \<and>
         (\<exists>w'. ParticlePool_update c now d w = Some w' \<and> active_list w' = [])"
proof -
  let ?p = "fst (Particle_spawn e t0 x y opts pn)"
  have bt: "birthTime ?p = t0" by (simp add: Particle_spawn_fields)
  have one: "\<not> active (Particle_update c now d ?p)"
    if "0 \<le> maxLife ?p" "t0 + maxLife ?p < now"
    by (rule expired_update) (use that bt in \<open>simp add: expired_def\<close>)
  have many: "active (fold (\<lambda>f. Particle_update c (fst f) (snd f)) frames ?p)"
    if "0 < maxLife ?p" "\<forall>f\<in>set frames. fst f < t0 + maxLife ?p"
    by (rule frames_before_expiry) (use that bt in simp_all)
  have "\<forall>a\<in>set (take (length (active_list w)) (active_list w)). expired now (heap w ! a)"
    using assms(2) by simp
  from update_loop_expired [OF assms(1) order_refl this]
  have all: "\<exists>w'. ParticlePool_update c now d w = Some w' \<and> active_list w' = []"
    by (auto simp: ParticlePool_update_def)
  show ?thesis
    using one many all Particle_update_ignores_delta [of c now d1 p d2] by blast
qed

text \<open>
  The particle spawned at time 0 with the desktop lifetime of 2000 ms is released by the
  first pool update at time 5000.
\<close>

theorem aging_follows_wall_clock_witness:
  "pool_inv red_particle_world \<and>
   expired 5000 (heap red_particle_world ! 299) \<and>
   ParticlePool_update PARTICLE_CONFIG 5000 (Num 16) red_particle_world \<noteq> None \<and>
   active_list (the (ParticlePool_update PARTICLE_CONFIG 5000 (Num 16) red_particle_world)) = []"
proof -
  have h1: "pool_inv red_particle_world"
    by (simp add: pool_inv_def red_particle_world_fields list_all_iff)
  have e: "expired 5000 (heap red_particle_world ! 299)"
    by (simp add: expired_def red_particle_world_fields Particle_spawn_fields no_options_def
        PARTICLE_CONFIG_def)
  then have h2: "\<forall>a\<in>set (active_list red_particle_world). expired 5000 (heap red_particle_world ! a)"
    by (simp add: red_particle_world_fields)
  obtain w' where "ParticlePool_update PARTICLE_CONFIG 5000 (Num 16) red_particle_world = Some w'"
      and "active_list w' = []"
    using aging_follows_wall_clock [OF h1 h2, where c = PARTICLE_CONFIG and d = "Num 16"]
    by blast
  then show ?thesis
    using h1 e by simp
qed

section \<open>Initialisation\<close>

lemma new_pool_update: "ParticlePool_update c now d (ParticlePool_new c n) = Some (ParticlePool_new c n)"
  by (simp add: ParticlePool_update_def ParticlePool_new_def)

lemma init_with_context:
  "context2d h \<Longrightarrow> fst (init h c now g) = Returned True"
  by (simp add: init_def resize_def start_def animate_def new_pool_update Let_def)

lemma init_with_context_pool:
  "context2d h \<Longrightarrow> pool_obj (snd (init h c now g)) = Some (ParticlePool_new c (poolSize c))"
  by (simp add: init_def resize_def start_def animate_def new_pool_update Let_def)

lemma init_without_context:
  "\<not> context2d h \<Longrightarrow> init h c now g = (TypeError, g\<lparr>canvas := True, ctx := False\<rparr>)"
  by (simp add: init_def resize_def Let_def)

text \<open>
  Claim C4, as amended. \<^verbatim>\<open>init()\<close> never returns \<^verbatim>\<open>false\<close>. When the 2D context is
  obtained it returns \<^verbatim>\<open>true\<close> and the pool exists. When \<^verbatim>\<open>getContext\<close> yields
  \<^verbatim>\<open>null\<close>, \<^verbatim>\<open>init()\<close> throws a TypeError (from \<^verbatim>\<open>resize()\<close>) before the pool is created,
  \<^verbatim>\<open>this.pool\<close> is left as it was, and a spawn call on the new engine throws a TypeError
  as well, leaving the engine unchanged.
\<close>

theorem init_never_reports_failure:
  "fst (init h c now g) \<noteq> Returned False \<and>
   (context2d h \<longrightarrow>
      fst (init h c now g) = Returned True \<and>
      pool_obj (snd (init h c now g)) = Some (ParticlePool_new c (poolSize c))) \<and>
   (\<not> context2d h \<longrightarrow>
      fst (init h c now g) = TypeError \<and>
      pool_obj (snd (init h c now g)) = pool_obj g \<and>
      fst (engine_spawn e op (snd (init h c now ParticleEngine_new))) = TypeError \<and>
      snd (engine_spawn e op (snd (init h c now ParticleEngine_new))) =
        snd (init h c now ParticleEngine_new))"
proof (cases "context2d h")
  case True
  then show ?thesis by (simp add: init_with_context init_with_context_pool)
next
  case False
  then show ?thesis
    by (simp add: init_without_context engine_spawn_def ParticleEngine_new_def)
qed

text \<open>With a context \<^verbatim>\<open>init()\<close> returns \<^verbatim>\<open>true\<close>; without one it throws, and so does a trail.\<close>

theorem init_never_reports_failure_witness:
  "context2d \<lparr>context2d = True, raf_id = 1\<rparr> \<and>
   fst (init \<lparr>context2d = True, raf_id = 1\<rparr> PARTICLE_CONFIG 0 ParticleEngine_new) = Returned True \<and>
   \<not> context2d \<lparr>context2d = False, raf_id = 1\<rparr> \<and>
   fst (init \<lparr>context2d = False, raf_id = 1\<rparr> PARTICLE_CONFIG 0 ParticleEngine_new) = TypeError \<and>
   pool_obj (snd (init \<lparr>context2d = False, raf_id = 1\<rparr> PARTICLE_CONFIG 0 ParticleEngine_new)) = None \<and>
   fst (engine_spawn desktop (1, Trail 10 10 None no_options)
     (snd (init \<lparr>context2d = False, raf_id = 1\<rparr> PARTICLE_CONFIG 0 ParticleEngine_new))) = TypeError"
  using init_never_reports_failure [of "\<lparr>context2d = True, raf_id = 1\<rparr>" PARTICLE_CONFIG 0
      ParticleEngine_new desktop "(1, Trail 10 10 None no_options)"]
    init_never_reports_failure [of "\<lparr>context2d = False, raf_id = 1\<rparr>" PARTICLE_CONFIG 0
      ParticleEngine_new desktop "(1, Trail 10 10 None no_options)"]
  by (simp add: ParticleEngine_new_def)

text \<open>
  Claim C4 as stated fails: without a 2D context \<^verbatim>\<open>init()\<close> on a new engine does not
  return \<^verbatim>\<open>false\<close> but throws, and a later \<^verbatim>\<open>spawnBurst\<close> does not return without
  effect but throws.
\<close>

theorem init_without_surface_throws:
  "fst (init \<lparr>context2d = False, raf_id = 1\<rparr> PARTICLE_CONFIG 0 ParticleEngine_new) = TypeError \<and>
   fst (init \<lparr>context2d = False, raf_id = 1\<rparr> PARTICLE_CONFIG 0 ParticleEngine_new) \<noteq> Returned False \<and>
   fst (engine_spawn desktop (1, Burst 10 10 20 no_options)
     (snd (init \<lparr>context2d = False, raf_id = 1\<rparr> PARTICLE_CONFIG 0 ParticleEngine_new))) = TypeError \<and>
   fst (engine_spawn desktop (1, Burst 10 10 20 no_options)
     (snd (init \<lparr>context2d = False, raf_id = 1\<rparr> PARTICLE_CONFIG 0 ParticleEngine_new))) \<noteq> Returned ()"
  by (simp add: init_def resize_def Let_def engine_spawn_def ParticleEngine_new_def)

section \<open>Bursts\<close>

lemma Particle_spawn_drawn:
  "snd (Particle_spawn e now x y opts (p, n)) = n + draws opts"
  by (cases "o_angle opts"; cases "o_speed opts"; cases "o_size opts"; cases "o_color opts")
     (simp_all add: Particle_spawn_def draws_def or_draw_def Let_def)

lemma Particle_spawn_velocity:
  assumes "o_angle opts = Val th"
  shows "vx (fst (Particle_spawn e now x y opts (p, n))) = cos th * launch_speed e opts n"
    and "vy (fst (Particle_spawn e now x y opts (p, n))) = sin th * launch_speed e opts n"
  using assms
  by (cases "o_speed opts"; simp add: Particle_spawn_def or_draw_def Let_def case_prod_beta
      launch_speed_def)+

lemma burst_options:
  assumes "o_angle opts = Absent"
  shows "spread (no_options\<lparr>o_angle := Val th\<rparr>) opts = opts\<lparr>o_angle := Val th\<rparr>"
  using assms
  by (cases "o_speed opts"; cases "o_size opts"; cases "o_color opts"; cases "o_lifetime opts")
     (simp_all add: spread_def over_def no_options_def)

lemma burst_body_eq:
  assumes "o_angle opts = Absent"
  shows "burst_body e now x y cnt opts i w =
         spawn_at e now x y (opts\<lparr>o_angle := Val (pi * 2 * real i / cnt)\<rparr>)
           (fst (get (cfg e) w)) (snd (get (cfg e) w))"
  by (simp add: burst_body_def Let_def case_prod_beta burst_options [OF assms])

lemma draws_angle: "draws (opts\<lparr>o_angle := Val th\<rparr>) = draws (opts\<lparr>o_angle := Val 0\<rparr>)"
  by (simp add: draws_def)

lemma launch_speed_angle [simp]: "launch_speed e (opts\<lparr>o_angle := v\<rparr>) n = launch_speed e opts n"
  by (simp add: launch_speed_def)

lemma spawn_at_drawn:
  "drawn (spawn_at e now x y opts a w) = drawn w + draws opts"
  using Particle_spawn_drawn [of e now x y opts "heap w ! a" "drawn w"]
  by (simp add: spawn_at_def case_prod_beta)

lemma burst_step:
  fixes e now x y cnt opts i w
  assumes inv: "pool_inv w" and ang: "o_angle opts = Absent"
  defines "w' \<equiv> burst_body e now x y cnt opts i w"
  defines "a \<equiv> fst (get (cfg e) w)"
  shows "pool_inv w'"
    and "active_list w' = active_list w @ [a]"
    and "a \<notin> set (active_list w)"
    and "drawn w' = drawn w + draws (opts\<lparr>o_angle := Val 0\<rparr>)"
    and "launched e opts (pi * 2 * real i / cnt) (drawn w) (heap w' ! a)"
    and "b \<in> set (active_list w) \<Longrightarrow> heap w' ! b = heap w ! b"
proof -
  let ?o = "opts\<lparr>o_angle := Val (pi * 2 * real i / cnt)\<rparr>"
  let ?w1 = "snd (get (cfg e) w)"
  have w': "w' = spawn_at e now x y ?o a ?w1"
    unfolding w'_def a_def by (rule burst_body_eq [OF ang])
  show "pool_inv w'" by (simp add: w' get_spec(3) [OF inv])
  show "active_list w' = active_list w @ [a]" by (simp add: w' a_def get_spec(2) [OF inv])
  show fresh: "a \<notin> set (active_list w)" unfolding a_def by (rule get_spec(1) [OF inv])
  show "drawn w' = drawn w + draws (opts\<lparr>o_angle := Val 0\<rparr>)"
    by (simp add: w' spawn_at_drawn get_spec(6) [OF inv] draws_angle [where opts = opts and th = "pi * 2 * real i / cnt"])
  have a_lt: "a < length (heap ?w1)" unfolding a_def by (rule get_spec(4) [OF inv])
  have "heap w' ! a = fst (Particle_spawn e now x y ?o (heap ?w1 ! a, drawn w))"
    using a_lt by (simp add: w' spawn_at_heap(1) get_spec(6) [OF inv])
  then show "launched e opts (pi * 2 * real i / cnt) (drawn w) (heap w' ! a)"
    by (simp add: launched_def Particle_spawn_velocity [where opts = ?o and th = "pi * 2 * real i / cnt"])
  show "heap w' ! b = heap w ! b" if b: "b \<in> set (active_list w)"
  proof -
    have "b \<noteq> a" using fresh b by blast
    moreover have "b < length (heap w)" using inv b by (auto simp: pool_inv_def list_all_iff)
    ultimately show ?thesis by (simp add: w' spawn_at_heap(2) get_spec(5) [OF inv])
  qed
qed

lemma burst_fold:
  fixes e now x y cnt opts w
  assumes inv: "pool_inv w" and ang: "o_angle opts = Absent"
  defines "W \<equiv> \<lambda>k. fold (burst_body e now x y cnt opts) [0..<k] w"
  shows "pool_inv (W k) \<and>
         length (active_list (W k)) = length (active_list w) + k \<and>
         take (length (active_list w)) (active_list (W k)) = active_list w \<and>
         drawn (W k) = drawn w + k * draws (opts\<lparr>o_angle := Val 0\<rparr>) \<and>
         (\<forall>i<k. launched e opts (pi * 2 * real i / cnt)
                   (drawn w + i * draws (opts\<lparr>o_angle := Val 0\<rparr>))
                   (heap (W k) ! (active_list (W k) ! (length (active_list w) + i))))"
proof (induction k)
  case 0
  show ?case by (simp add: W_def inv)
next
  case (Suc k)
  let ?L = "length (active_list w)"
  let ?dr = "draws (opts\<lparr>o_angle := Val 0\<rparr>)"
  let ?a = "fst (get (cfg e) (W k))"
  have step: "W (Suc k) = burst_body e now x y cnt opts k (W k)"
    by (simp add: W_def)
  have invk: "pool_inv (W k)" and lenk: "length (active_list (W k)) = ?L + k"
    and takek: "take ?L (active_list (W k)) = active_list w"
    and drk: "drawn (W k) = drawn w + k * ?dr"
    and oldk: "\<And>i. i < k \<Longrightarrow> launched e opts (pi * 2 * real i / cnt) (drawn w + i * ?dr)
                   (heap (W k) ! (active_list (W k) ! (?L + i)))"
    using Suc.IH by blast+
  have st1: "pool_inv (W (Suc k))"
    unfolding step by (rule burst_step(1) [OF invk ang])
  have al: "active_list (W (Suc k)) = active_list (W k) @ [?a]"
    unfolding step by (rule burst_step(2) [OF invk ang])
  have st4: "drawn (W (Suc k)) = drawn (W k) + ?dr"
    unfolding step by (rule burst_step(4) [OF invk ang])
  have st5: "launched e opts (pi * 2 * real k / cnt) (drawn (W k)) (heap (W (Suc k)) ! ?a)"
    unfolding step by (rule burst_step(5) [OF invk ang])
  have st6: "heap (W (Suc k)) ! b = heap (W k) ! b" if "b \<in> set (active_list (W k))" for b
    unfolding step by (rule burst_step(6) [OF invk ang that])
  have "\<forall>i<Suc k. launched e opts (pi * 2 * real i / cnt) (drawn w + i * ?dr)
          (heap (W (Suc k)) ! (active_list (W (Suc k)) ! (?L + i)))"
  proof (intro allI impI)
    fix i assume i: "i < Suc k"
    show "launched e opts (pi * 2 * real i / cnt) (drawn w + i * ?dr)
          (heap (W (Suc k)) ! (active_list (W (Suc k)) ! (?L + i)))"
    proof (cases "i = k")
      case True
      have "active_list (W (Suc k)) ! (?L + k) = ?a"
        by (simp add: al nth_append lenk)
      then show ?thesis using st5 by (simp add: True drk)
    next
      case False
      then have ik: "i < k" using i by simp
      let ?b = "active_list (W k) ! (?L + i)"
      have b_in: "?b \<in> set (active_list (W k))" using ik by (simp add: lenk)
      have "active_list (W (Suc k)) ! (?L + i) = ?b"
        using ik by (simp add: al nth_append lenk)
      moreover have "heap (W (Suc k)) ! ?b = heap (W k) ! ?b" by (rule st6 [OF b_in])
      ultimately show ?thesis using oldk [OF ik] by simp
    qed
  qed
  moreover have "take ?L (active_list (W (Suc k))) = active_list w"
    using takek by (simp add: al lenk)
  ultimately show ?case
    using st1 st4 by (simp add: al lenk drk algebra_simps)
qed

text \<open>
  Claim C6. On the desktop profile, under budget and with no \<^verbatim>\<open>angle\<close> key in the
  options, \<^verbatim>\<open>spawnBurst(x, y, N, options)\<close> appends exactly \<open>N\<close> particles to the live set,
  which stays free of duplicates; the \<open>i\<close>-th of them (\<open>i = 0, \<dots>, N - 1\<close>) is active and
  has the velocity \<open>(cos a * s, sin a * s)\<close> for the angle \<open>a = 2\<pi>i/N\<close> and the speed \<open>s\<close>
  that its \<^verbatim>\<open>spawn\<close> chose (the override or a random speed of the configured range).
\<close>

theorem burst_spawns_evenly:
  assumes "getActiveCount w < maxParticles (cfg e)" and "\<not> IS_MOBILE_DEVICE e"
    and "o_angle opts = Absent" and "pool_inv w"
  shows "getActiveCount (spawnBurst e now x y (real N) opts w) = getActiveCount w + N \<and>
         take (getActiveCount w) (active_list (spawnBurst e now x y (real N) opts w)) =
           active_list w \<and>
         distinct (active_list (spawnBurst e now x y (real N) opts w)) \<and>
         (\<forall>i<N. launched e opts (2 * pi * real i / real N)
                   (drawn w + i * draws (opts\<lparr>o_angle := Val 0\<rparr>))
                   (heap (spawnBurst e now x y (real N) opts w) !
                     (active_list (spawnBurst e now x y (real N) opts w) ! (getActiveCount w + i))))"
proof -
  let ?W = "fold (burst_body e now x y (real N) opts) [0..<N] w"
  have eq: "spawnBurst e now x y (real N) opts w = ?W"
    using assms(1,2) by (simp add: spawnBurst_def mobile_count_def for_loop_fold)
  have ang: "pi * 2 * real i / real N = 2 * pi * real i / real N" for i
    by simp
  note f = burst_fold [OF assms(4,3), where e = e and now = now and x = x and y = y
      and cnt = "real N" and k = N]
  have "distinct (active_list ?W)"
    using f by (simp add: pool_inv_def)
  then show ?thesis
    using f unfolding eq getActiveCount_def ang by simp
qed

text \<open>
  A burst of 4 into the engine's new pool: the second particle flies at the angle \<open>\<pi>/2\<close>,
  with the speed \<open>1/2 * (4 - 1) + 1\<close>.
\<close>

theorem burst_spawns_evenly_witness:
  "getActiveCount (ParticlePool_new PARTICLE_CONFIG 300) < maxParticles (cfg desktop) \<and>
   \<not> IS_MOBILE_DEVICE desktop \<and>
   o_angle no_options = Absent \<and>
   pool_inv (ParticlePool_new PARTICLE_CONFIG 300) \<and>
   getActiveCount (spawnBurst desktop 0 10 10 4 no_options (ParticlePool_new PARTICLE_CONFIG 300)) = 4 \<and>
   active (heap (spawnBurst desktop 0 10 10 4 no_options (ParticlePool_new PARTICLE_CONFIG 300)) !
     (active_list (spawnBurst desktop 0 10 10 4 no_options (ParticlePool_new PARTICLE_CONFIG 300)) ! 1)) \<and>
   vx (heap (spawnBurst desktop 0 10 10 4 no_options (ParticlePool_new PARTICLE_CONFIG 300)) !
     (active_list (spawnBurst desktop 0 10 10 4 no_options (ParticlePool_new PARTICLE_CONFIG 300)) ! 1)) = 0 \<and>
   vy (heap (spawnBurst desktop 0 10 10 4 no_options (ParticlePool_new PARTICLE_CONFIG 300)) !
     (active_list (spawnBurst desktop 0 10 10 4 no_options (ParticlePool_new PARTICLE_CONFIG 300)) ! 1)) = 5 / 2"
proof -
  let ?w = "ParticlePool_new PARTICLE_CONFIG 300"
  have h1: "getActiveCount ?w < maxParticles (cfg desktop)"
    by (simp add: PARTICLE_CONFIG_def)
  have h2: "\<not> IS_MOBILE_DEVICE desktop" by simp
  have h3: "o_angle no_options = Absent" by (simp add: no_options_def)
  have h4: "pool_inv ?w" using new_live_inv [of PARTICLE_CONFIG 300] by (simp add: live_inv_def)
  have sp: "launch_speed desktop no_options n = 5 / 2" for n
    by (simp add: launch_speed_def no_options_def PARTICLE_CONFIG_def)
  note t = burst_spawns_evenly [OF h1 h2 h3 h4, where now = 0 and x = 10 and y = 10 and N = 4]
  have "launched desktop no_options (2 * pi * real 1 / real 4)
      (drawn ?w + 1 * draws (no_options\<lparr>o_angle := Val 0\<rparr>))
      (heap (spawnBurst desktop 0 10 10 4 no_options ?w) !
        (active_list (spawnBurst desktop 0 10 10 4 no_options ?w) ! (getActiveCount ?w + 1)))"
    using t [THEN conjunct2, THEN conjunct2, THEN conjunct2, rule_format, of 1] by simp
  then have "launched desktop no_options (pi / 2)
      (drawn ?w + 1 * draws (no_options\<lparr>o_angle := Val 0\<rparr>))
      (heap (spawnBurst desktop 0 10 10 4 no_options ?w) !
        (active_list (spawnBurst desktop 0 10 10 4 no_options ?w) ! 1))"
    by simp
  then show ?thesis
    using h1 h2 h3 h4 t by (simp add: launched_def sp)
qed

end
